theory Spec2Isabelle
  imports Complex_Main "HOL-Library.Product_Lexorder" "HOL-Library.Multiset"
begin

section \<open>Level curves (cogs/Levelling.py, "Core maths for level curves")\<close>

text \<open>
  Python integers are unbounded and are modelled as \<open>int\<close>. The curve name is a
  string; \<open>str.lower\<close> is modelled on ASCII letters (the three curve names are ASCII).

  The linear and the quadratic curve are computed on integers only, so the final
  \<open>int(round(max(0, xp)))\<close> of the source is \<open>max 0 xp\<close> for them. The exponential
  curve is computed in double-precision floating point through \<open>math.pow\<close>; its integer
  result \<open>int(round(max(0, base_xp * (math.pow(1.15, level) - 1.0))))\<close> for a level
  \<open>\<ge> 1\<close> is not computed here but taken as the parameter \<open>fexp base_xp level\<close>.
  \<open>math.pow\<close> raises \<open>OverflowError\<close> once \<open>1.15 ^ level\<close> leaves the range of a
  double (levels above about 5000); \<open>fexp\<close> is total, so that exception is outside this
  theory.
\<close>

definition lower_char :: "char \<Rightarrow> char" where
  "lower_char c =
     (let n = (of_char c :: nat) in if 65 \<le> n \<and> n \<le> 90 then char_of (n + 32) else c)"

definition lower :: "string \<Rightarrow> string" where
  "lower s = map lower_char s"

definition xp_required_for_level ::
  "(int \<Rightarrow> int \<Rightarrow> int) \<Rightarrow> string \<Rightarrow> int \<Rightarrow> int \<Rightarrow> int \<Rightarrow> int \<Rightarrow> int" where
  "xp_required_for_level fexp curve base_xp a b level =
     (let level = max 0 level in
      if level = 0 then 0
      else
        let curve = lower (if curve = [] then ''quadratic'' else curve) in
        if curve = ''linear'' then max 0 ((base_xp + a) * level)
        else if curve = ''exponential'' then fexp base_xp level
        else max 0 (base_xp * level ^ 2 + a * level + b))"

text \<open>
  The first loop of \<open>level_from_total_xp\<close>: \<open>hi\<close> doubles while the threshold of
  \<open>hi\<close> is within \<open>total_xp\<close>, and the loop is left once \<open>hi\<close> exceeds 10000.
  As a loop on an arbitrary integer \<open>hi\<close> it need not end (\<open>hi = 0\<close>), hence the
  option result; the source starts it at \<open>hi = 1\<close>.
\<close>

partial_function (option) ramp ::
  "(int \<Rightarrow> int \<Rightarrow> int) \<Rightarrow> string \<Rightarrow> int \<Rightarrow> int \<Rightarrow> int \<Rightarrow> int \<Rightarrow> int \<Rightarrow> int option" where
  "ramp fexp curve base_xp a b total_xp hi =
     (if xp_required_for_level fexp curve base_xp a b hi \<le> total_xp
      then (let hi' = hi * 2 in
            if hi' > 10000 then Some hi' else ramp fexp curve base_xp a b total_xp hi')
      else Some hi)"

text \<open>The second loop: binary search for the greatest level in \<open>[lo, hi]\<close>.\<close>

function bsearch ::
  "(int \<Rightarrow> int \<Rightarrow> int) \<Rightarrow> string \<Rightarrow> int \<Rightarrow> int \<Rightarrow> int \<Rightarrow> int \<Rightarrow> int \<Rightarrow> int \<Rightarrow> int" where
  "bsearch fexp curve base_xp a b total_xp lo hi =
     (if lo < hi
      then (let mid = (lo + hi + 1) div 2 in
            if xp_required_for_level fexp curve base_xp a b mid \<le> total_xp
            then bsearch fexp curve base_xp a b total_xp mid hi
            else bsearch fexp curve base_xp a b total_xp lo (mid - 1))
      else lo)"
  by pat_completeness auto
termination
  by (relation "measure (\<lambda>(fexp, curve, base_xp, a, b, total_xp, lo, hi). nat (hi - lo))") auto

definition level_from_total_xp ::
  "(int \<Rightarrow> int \<Rightarrow> int) \<Rightarrow> string \<Rightarrow> int \<Rightarrow> int \<Rightarrow> int \<Rightarrow> int \<Rightarrow> int option" where
  "level_from_total_xp fexp curve base_xp a b total_xp =
     (let total_xp = max 0 total_xp in
      case ramp fexp curve base_xp a b total_xp 1 of
        None \<Rightarrow> None
      | Some hi \<Rightarrow> Some (bsearch fexp curve base_xp a b total_xp 0 hi))"

definition xp_between_levels ::
  "(int \<Rightarrow> int \<Rightarrow> int) \<Rightarrow> string \<Rightarrow> int \<Rightarrow> int \<Rightarrow> int \<Rightarrow> int \<Rightarrow> int" where
  "xp_between_levels fexp curve base_xp a b level =
     (let needed = xp_required_for_level fexp curve base_xp a b (level + 1)
                   - xp_required_for_level fexp curve base_xp a b level
      in max 1 needed)"

section \<open>The store (the five tables of levels.db)\<close>

text \<open>
  \<open>guild_settings\<close> has the guild id as its primary key and is a map. The other tables
  are lists of rows in insertion order: SELECT is \<open>filter\<close> or \<open>find\<close>, UPDATE is
  \<open>map\<close>, INSERT appends. Columns of type INTEGER are \<open>int\<close>, without the 64-bit
  bound of SQLite. Columns of type REAL hold Python floats and are \<open>real\<close> here; no
  arithmetic is done on them in this theory (see \<open>fscale\<close> below).
\<close>

record settings =
  xp_min :: int
  xp_max :: int
  cooldown_seconds :: int
  multiplier :: real
  min_chars :: int
  attachments_bonus :: int
  mentions_bonus :: int
  threads_multiplier :: real
  ignore_bots :: int
  curve_type :: string
  base_xp :: int
  curve_a :: int
  curve_b :: int
  announce_level_up :: int
  announce_channel_id :: "int option"

record user_row =
  guild_id :: int
  user_id :: int
  xp :: int
  level :: int
  last_message_ts :: int

record reward_row =
  rr_guild_id :: int
  rr_level :: int
  rr_role_id :: int

record db =
  guild_settings :: "int \<rightharpoonup> settings"
  ignored_channels :: "(int \<times> int) set"
  blacklisted_roles :: "(int \<times> int) list"
  user_xp :: "user_row list"
  role_rewards :: "reward_row list"

definition DEFAULT_SETTINGS :: settings where
  "DEFAULT_SETTINGS =
     \<lparr>xp_min = 10, xp_max = 20, cooldown_seconds = 60, multiplier = 1, min_chars = 5,
      attachments_bonus = 5, mentions_bonus = 2, threads_multiplier = 1, ignore_bots = 1,
      curve_type = ''quadratic'', base_xp = 100, curve_a = 50, curve_b = 0,
      announce_level_up = 1, announce_channel_id = None\<rparr>"

definition get_settings :: "db \<Rightarrow> int \<Rightarrow> settings \<times> db" where
  "get_settings d gid =
     (case guild_settings d gid of
        Some s \<Rightarrow> (s, d)
      | None \<Rightarrow> (DEFAULT_SETTINGS,
                 d\<lparr>guild_settings := (guild_settings d)(gid \<mapsto> DEFAULT_SETTINGS)\<rparr>))"

definition is_user :: "int \<Rightarrow> int \<Rightarrow> user_row \<Rightarrow> bool" where
  \<comment> \<open>\<open>WHERE guild_id = ? AND user_id = ?\<close>\<close>
  "is_user gid uid r \<longleftrightarrow> guild_id r = gid \<and> user_id r = uid"

definition new_user_row :: "int \<Rightarrow> int \<Rightarrow> user_row" where
  \<comment> \<open>\<open>INSERT INTO user_xp (...) VALUES (?, ?, 0, 0, 0)\<close>\<close>
  "new_user_row gid uid =
     \<lparr>guild_id = gid, user_id = uid, xp = 0, level = 0, last_message_ts = 0\<rparr>"

definition get_user_record :: "db \<Rightarrow> int \<Rightarrow> int \<Rightarrow> user_row \<times> db" where
  "get_user_record d gid uid =
     (case find (is_user gid uid) (user_xp d) of
        Some r \<Rightarrow> (r, d)
      | None \<Rightarrow> (new_user_row gid uid, d\<lparr>user_xp := user_xp d @ [new_user_row gid uid]\<rparr>))"

definition set_last_message_ts :: "db \<Rightarrow> int \<Rightarrow> int \<Rightarrow> int \<Rightarrow> db" where
  "set_last_message_ts d gid uid ts =
     d\<lparr>user_xp := map (\<lambda>r. if is_user gid uid r then r\<lparr>last_message_ts := ts\<rparr> else r)
                      (user_xp d)\<rparr>"

definition get_last_message_ts :: "db \<Rightarrow> int \<Rightarrow> int \<Rightarrow> int" where
  "get_last_message_ts d gid uid =
     (case find (is_user gid uid) (user_xp d) of
        Some r \<Rightarrow> last_message_ts r
      | None \<Rightarrow> 0)"

definition is_channel_ignored :: "db \<Rightarrow> int \<Rightarrow> int \<Rightarrow> bool" where
  "is_channel_ignored d gid cid \<longleftrightarrow> (gid, cid) \<in> ignored_channels d"

definition list_blacklisted_roles :: "db \<Rightarrow> int \<Rightarrow> int list" where
  "list_blacklisted_roles d gid = map snd (filter (\<lambda>(g, r). g = gid) (blacklisted_roles d))"

section \<open>Leaderboard queries\<close>

text \<open>
  \<open>ORDER BY xp DESC, user_id ASC\<close> sorts on the pair \<open>(- xp, user_id)\<close> in the
  lexicographic order. SQLite reads a negative LIMIT as no limit and a negative OFFSET
  as 0.
\<close>

definition top_users :: "db \<Rightarrow> int \<Rightarrow> int \<Rightarrow> int \<Rightarrow> user_row list" where
  "top_users d gid limit offset =
     (let rows = sort_key (\<lambda>r. (- xp r, user_id r)) (filter (\<lambda>r. guild_id r = gid) (user_xp d));
          rest = drop (nat offset) rows
      in if limit < 0 then rest else take (nat limit) rest)"

text \<open>
  The scalar subquery is NULL when the user has no row; every comparison with NULL
  fails, so the count is 0. \<open>COUNT(*)\<close> always yields a row, so the source's
  \<open>return 0\<close> is never taken.
\<close>

definition user_rank :: "db \<Rightarrow> int \<Rightarrow> int \<Rightarrow> int" where
  "user_rank d gid uid =
     (let better =
        (case find (is_user gid uid) (user_xp d) of
           None \<Rightarrow> 0
         | Some me \<Rightarrow> int (length (filter (\<lambda>r. guild_id r = gid \<and> xp r > xp me) (user_xp d))))
      in better + 1)"

section \<open>The host platform, as far as the cog uses it\<close>

text \<open>
  The guild and its members live outside the program. \<open>'w\<close> is the state of that world;
  the cog reads it through \<open>get_role\<close> (\<open>guild.get_role(id)\<close> is not \<open>None\<close>) and
  \<open>has_role\<close> (\<open>role in member.roles\<close>) and changes it only through \<open>add_roles\<close>
  (\<open>member.add_roles\<close>), which returns or raises one of its two documented exceptions.
  \<open>guild_members\<close> is the member cache (\<open>guild.members\<close>, \<open>guild.get_member\<close>) and
  \<open>text_channel\<close> tells whether \<open>guild.get_channel(id)\<close> is a text channel or thread.
\<close>

datatype add_result = Add_Ok | Raise_Forbidden | Raise_HTTPException

record 'w discord =
  get_role :: "'w \<Rightarrow> int \<Rightarrow> bool"
  has_role :: "'w \<Rightarrow> int \<Rightarrow> int \<Rightarrow> bool"
  add_roles :: "'w \<Rightarrow> int \<Rightarrow> int \<Rightarrow> add_result \<times> 'w"
  guild_members :: "int set"
  text_channel :: "int \<Rightarrow> bool"

section \<open>Applying XP and granting rewards\<close>

text \<open>
  One entry per iteration of the reward loop of \<open>add_xp_and_check_level_up\<close>: the level
  of the row and what happened to it. The source keeps only the list \<open>awarded\<close>; the list
  of attempts is added here to state which rows the loop reaches.
\<close>

datatype attempt = No_Such_Role | Already_Held | Granted | Forbidden | HTTP_Error | Attribute_Error

text \<open>
  \<open>is_member\<close> tells whether the object passed as \<open>member\<close> is a \<open>discord.Member\<close>.
  The author of a message can be a plain \<open>discord.User\<close>, which has no \<open>roles\<close>:
  \<open>role not in member.roles\<close> then raises \<open>AttributeError\<close>, which the loop does not
  catch. The last component of the result tells whether that happened.
\<close>

fun award_roles ::
  "'w discord \<Rightarrow> bool \<Rightarrow> int \<Rightarrow> reward_row list \<Rightarrow> 'w \<Rightarrow>
     (int \<times> int) list \<times> (int \<times> attempt) list \<times> 'w \<times> bool" where
  "award_roles D is_member uid [] w = ([], [], w, False)"
| "award_roles D is_member uid (rr # rows) w =
     (let level_at = rr_level rr; role_id = rr_role_id rr in
      if \<not> get_role D w role_id then
        (let (awarded, tried, w', exc) = award_roles D is_member uid rows w
         in (awarded, (level_at, No_Such_Role) # tried, w', exc))
      else if \<not> is_member then ([], [(level_at, Attribute_Error)], w, True)
      else if has_role D w uid role_id then
        (let (awarded, tried, w', exc) = award_roles D is_member uid rows w
         in (awarded, (level_at, Already_Held) # tried, w', exc))
      else
        (case add_roles D w uid role_id of
           (Add_Ok, w1) \<Rightarrow>
             (let (awarded, tried, w', exc) = award_roles D is_member uid rows w1
              in ((level_at, role_id) # awarded, (level_at, Granted) # tried, w', exc))
         | (Raise_Forbidden, w1) \<Rightarrow>
             (let (awarded, tried, w', exc) = award_roles D is_member uid rows w1
              in (awarded, (level_at, Forbidden) # tried, w', exc))
         | (Raise_HTTPException, w1) \<Rightarrow>
             (let (awarded, tried, w', exc) = award_roles D is_member uid rows w1
              in (awarded, (level_at, HTTP_Error) # tried, w', exc))))"

definition reward_rows :: "db \<Rightarrow> int \<Rightarrow> int \<Rightarrow> int \<Rightarrow> reward_row list" where
  \<comment> \<open>\<open>WHERE guild_id = ? AND level BETWEEN ? AND ? ORDER BY level ASC\<close>\<close>
  "reward_rows d gid lo hi =
     sort_key rr_level
       (filter (\<lambda>rr. rr_guild_id rr = gid \<and> lo \<le> rr_level rr \<and> rr_level rr \<le> hi)
          (role_rewards d))"

record 'w applied =
  new_total :: int
  new_level :: int
  awarded :: "(int \<times> int) list"
  attempts :: "(int \<times> attempt) list"
  old_level :: int
  raised :: bool
  world :: "'w"
  store :: db

text \<open>
  \<open>add_xp_and_check_level_up(guild, member, gained_xp)\<close>. The source returns
  \<open>(new_total, new_level, awarded)\<close>; the result here also carries the attempts, the
  level read from the row before the update, whether the reward loop raised (then the
  source returns nothing, after the update of the row was committed), and the world and
  the store afterwards. The result is \<open>None\<close> only if the level search does not return.
\<close>

definition add_xp_and_check_level_up ::
  "(int \<Rightarrow> int \<Rightarrow> int) \<Rightarrow> 'w discord \<Rightarrow> 'w \<Rightarrow> db \<Rightarrow> int \<Rightarrow> bool \<Rightarrow> int \<Rightarrow> int \<Rightarrow>
     'w applied option" where
  "add_xp_and_check_level_up fexp D w d gid is_member uid gained_xp =
     (let (s, d1) = get_settings d gid;
          row = find (is_user gid uid) (user_xp d1);
          d2 = (case row of
                  None \<Rightarrow> d1\<lparr>user_xp := user_xp d1 @ [new_user_row gid uid]\<rparr>
                | Some r \<Rightarrow> d1);
          current_xp = (case row of None \<Rightarrow> 0 | Some r \<Rightarrow> xp r);
          current_level = (case row of None \<Rightarrow> 0 | Some r \<Rightarrow> level r);
          tot = max 0 (current_xp + gained_xp)
      in case level_from_total_xp fexp (curve_type s) (base_xp s) (curve_a s) (curve_b s) tot of
           None \<Rightarrow> None
         | Some lvl \<Rightarrow>
             (let d3 = d2\<lparr>user_xp :=
                          map (\<lambda>r. if is_user gid uid r then r\<lparr>xp := tot, level := lvl\<rparr> else r)
                            (user_xp d2)\<rparr>;
                  (aw, tried, w', exc) =
                    (if lvl > current_level
                     then award_roles D is_member uid (reward_rows d3 gid (current_level + 1) lvl) w
                     else ([], [], w, False))
              in Some \<lparr>new_total = tot, new_level = lvl, awarded = aw, attempts = tried,
                       old_level = current_level, raised = exc, world = w', store = d3\<rparr>))"



section \<open>The message pipeline\<close>

text \<open>
  A message as \<open>on_message\<close> reads it. \<open>content_len\<close> is
  \<open>len(message.content.strip())\<close>. The clock (\<open>now_ts\<close>) and the random source
  (\<open>randint\<close>, the answer of \<open>random.randint\<close> for a range) are inputs;
  \<open>random.randint\<close> raises \<open>ValueError\<close> on an empty range. \<open>fscale g m\<close> stands
  for \<open>int(round(g * m))\<close> with the float \<open>m\<close>, which is evaluated in floating point
  and is a parameter here. Every exception is caught and logged at the end of
  \<open>on_message\<close>; what was written to the store before it stays written.
\<close>

record message =
  guild :: "int option"
  author_id :: int
  author_bot :: bool
  author_is_member :: bool
  author_roles :: "int list"
  channel_id :: int
  channel_is_thread :: bool
  content_len :: nat
  attachments :: nat
  mentions :: nat

record notification =
  sent_to :: int
  reached_level :: int
  progress :: int
  need_to_next :: int
  reward_lines :: "(int \<times> int) list"

datatype 'w outcome =
    No_Guild
  | Bot_Ignored
  | Channel_Ignored
  | Role_Blacklisted
  | Too_Short
  | On_Cooldown
  | Raised_ValueError
  | No_Gain
  | Raised_AttributeError int "'w applied"
  | Gained int "'w applied" "notification option"

definition announce ::
  "(int \<Rightarrow> int \<Rightarrow> int) \<Rightarrow> 'w discord \<Rightarrow> settings \<Rightarrow> message \<Rightarrow> 'w applied \<Rightarrow> notification option" where
  "announce fexp D s m r =
     (if awarded r \<noteq> [] \<or> new_level r > 0 then
        (if announce_level_up s = 1 then
           (let announce_channel =
                  (case announce_channel_id s of
                     None \<Rightarrow> channel_id m
                   | Some c \<Rightarrow> if c \<noteq> 0 \<and> text_channel D c then c else channel_id m);
                current_level = new_level r;
                need = xp_between_levels fexp (curve_type s) (base_xp s) (curve_a s) (curve_b s)
                         current_level;
                prev_req = xp_required_for_level fexp (curve_type s) (base_xp s) (curve_a s)
                             (curve_b s) current_level
            in Some \<lparr>sent_to = announce_channel, reached_level = current_level,
                     progress = new_total r - prev_req, need_to_next = need,
                     reward_lines = filter (\<lambda>(lvl, rid). get_role D (world r) rid) (awarded r)\<rparr>)
         else None)
      else None)"

text \<open>The block "Compute XP gain" of \<open>on_message\<close>, for a non-empty range.\<close>

definition compute_gain ::
  "(int \<Rightarrow> real \<Rightarrow> int) \<Rightarrow> (int \<Rightarrow> int \<Rightarrow> int) \<Rightarrow> settings \<Rightarrow> message \<Rightarrow> int" where
  "compute_gain fscale randint s m =
     (let base_gain = randint (xp_min s) (xp_max s);
          attach_bonus = attachments_bonus s * int (attachments m);
          mention_bonus = mentions_bonus s * int (mentions m);
          gain0 = base_gain + attach_bonus + mention_bonus;
          gain1 = (if channel_is_thread m then fscale gain0 (threads_multiplier s) else gain0)
      in max 0 (fscale gain1 (multiplier s)))"

definition on_message ::
  "(int \<Rightarrow> int \<Rightarrow> int) \<Rightarrow> (int \<Rightarrow> real \<Rightarrow> int) \<Rightarrow> (int \<Rightarrow> int \<Rightarrow> int) \<Rightarrow> 'w discord \<Rightarrow>
     'w \<Rightarrow> db \<Rightarrow> int \<Rightarrow> message \<Rightarrow> ('w outcome \<times> 'w \<times> db) option" where
  "on_message fexp fscale randint D w d now_ts m =
     (case guild m of
        None \<Rightarrow> Some (No_Guild, w, d)
      | Some gid \<Rightarrow>
          if author_bot m \<and> ignore_bots (fst (get_settings d gid)) = 1
          then Some (Bot_Ignored, w, snd (get_settings d gid))
          else
            let (s, d1) = get_settings d gid in
            if is_channel_ignored d1 gid (channel_id m) then Some (Channel_Ignored, w, d1)
            else if author_is_member m
                    \<and> (\<exists>r \<in> set (author_roles m). r \<in> set (list_blacklisted_roles d1 gid))
            then Some (Role_Blacklisted, w, d1)
            else if int (content_len m) < min_chars s then Some (Too_Short, w, d1)
            else
              let last_ts = get_last_message_ts d1 gid (author_id m) in
              if now_ts - last_ts < cooldown_seconds s then Some (On_Cooldown, w, d1)
              else if xp_max s < xp_min s then Some (Raised_ValueError, w, d1)
              else
                let gain = compute_gain fscale randint s m;
                    d2 = set_last_message_ts d1 gid (author_id m) now_ts
                in if gain \<le> 0 then Some (No_Gain, w, d2)
                   else
                     (case add_xp_and_check_level_up fexp D w d2 gid (author_is_member m)
                             (author_id m) gain of
                        None \<Rightarrow> None
                      | Some r \<Rightarrow>
                          if raised r then Some (Raised_AttributeError gain r, world r, store r)
                          else Some (Gained gain r (announce fexp D s m r), world r, store r)))"

text \<open>
  What the filters of \<open>on_message\<close> before the cooldown check ask of a message of guild
  \<open>gid\<close>; used to state which messages reach the cooldown check.
\<close>

definition passes_filters :: "db \<Rightarrow> int \<Rightarrow> message \<Rightarrow> bool" where
  "passes_filters d gid m \<longleftrightarrow>
     \<not> (author_bot m \<and> ignore_bots (fst (get_settings d gid)) = 1)
     \<and> \<not> is_channel_ignored d gid (channel_id m)
     \<and> \<not> (author_is_member m
            \<and> (\<exists>r \<in> set (author_roles m). r \<in> set (list_blacklisted_roles d gid)))
     \<and> \<not> int (content_len m) < min_chars (fst (get_settings d gid))"

section \<open>Recalculation after a curve change\<close>

fun recalc_members ::
  "(int \<Rightarrow> int \<Rightarrow> int) \<Rightarrow> 'w discord \<Rightarrow> int \<Rightarrow> user_row list \<Rightarrow> 'w \<Rightarrow> db \<Rightarrow> int \<Rightarrow> int \<Rightarrow>
     (int \<times> (int \<times> attempt) list) list \<Rightarrow>
     (int \<times> int \<times> (int \<times> (int \<times> attempt) list) list \<times> 'w \<times> db) option" where
  "recalc_members fexp D gid [] w d changed awarded_roles_total scans =
     Some (changed, awarded_roles_total, scans, w, d)"
| "recalc_members fexp D gid (r # rows) w d changed awarded_roles_total scans =
     (if user_id r \<notin> guild_members D
      then recalc_members fexp D gid rows w d changed awarded_roles_total scans
      else
        (case add_xp_and_check_level_up fexp D w d gid True (user_id r) 0 of
           None \<Rightarrow> None
         | Some res \<Rightarrow>
             recalc_members fexp D gid rows (world res) (store res)
               (if new_level res \<noteq> level r then changed + 1 else changed)
               (awarded_roles_total + int (length (awarded res)))
               (scans @ [(user_id r, attempts res)])))"

fun recalc_others ::
  "(int \<Rightarrow> int \<Rightarrow> int) \<Rightarrow> settings \<Rightarrow> int \<Rightarrow> user_row list \<Rightarrow> db \<Rightarrow> int \<Rightarrow> (int \<times> db) option" where
  "recalc_others fexp s gid [] d changed = Some (changed, d)"
| "recalc_others fexp s gid (r # rows) d changed =
     (case level_from_total_xp fexp (curve_type s) (base_xp s) (curve_a s) (curve_b s) (xp r) of
        None \<Rightarrow> None
      | Some lvl \<Rightarrow>
          if lvl \<noteq> level r
          then recalc_others fexp s gid rows
                 (d\<lparr>user_xp := map (\<lambda>q. if is_user gid (user_id r) q then q\<lparr>level := lvl\<rparr> else q)
                                   (user_xp d)\<rparr>)
                 (changed + 1)
          else recalc_others fexp s gid rows d changed)"

record 'w recalc_result =
  changed_rows :: int
  awarded_roles :: int
  scans :: "(int \<times> (int \<times> attempt) list) list"
  world_after :: "'w"
  store_after :: db

definition cfg_recalc ::
  "(int \<Rightarrow> int \<Rightarrow> int) \<Rightarrow> 'w discord \<Rightarrow> 'w \<Rightarrow> db \<Rightarrow> int \<Rightarrow> 'w recalc_result option" where
  "cfg_recalc fexp D w d gid =
     (let (s, d1) = get_settings d gid;
          rows = filter (\<lambda>r. guild_id r = gid) (user_xp d1);
          member_rows = filter (\<lambda>r. user_id r \<in> guild_members D) rows;
          other_rows = filter (\<lambda>r. user_id r \<notin> guild_members D) rows
      in case recalc_members fexp D gid member_rows w d1 0 0 [] of
           None \<Rightarrow> None
         | Some (changed, granted, sc, w', d2) \<Rightarrow>
             (case recalc_others fexp s gid other_rows d2 changed of
                None \<Rightarrow> None
              | Some (changed', d3) \<Rightarrow>
                  Some \<lparr>changed_rows = changed', awarded_roles = granted, scans = sc,
                        world_after = w', store_after = d3\<rparr>))"

text \<open>
  What one pass of the recalculation over the rows \<open>rows\<close> of guild \<open>gid\<close> leaves
  behind, from the table \<open>xs\<close> to the table \<open>ys\<close>: every row keeps its place, keys,
  XP and timestamp; a row of \<open>ys\<close> is either a row of \<open>xs\<close> that the pass had no
  business with, or a row of one of the subjects of \<open>rows\<close> whose level is now the
  level of its XP (\<open>lev\<close>); and the rows the pass had no business with are all still
  there. Used in the proofs about \<open>cfg_recalc\<close>.
\<close>

definition recalc_post ::
  "(int \<Rightarrow> int option) \<Rightarrow> int \<Rightarrow> user_row list \<Rightarrow> user_row list \<Rightarrow> user_row list \<Rightarrow> bool" where
  "recalc_post lev gid xs ys rows \<longleftrightarrow>
     map (\<lambda>r. (guild_id r, user_id r, xp r, last_message_ts r)) ys
       = map (\<lambda>r. (guild_id r, user_id r, xp r, last_message_ts r)) xs
     \<and> (\<forall>q \<in> set ys.
           (q \<in> set xs \<and> \<not> (guild_id q = gid \<and> user_id q \<in> user_id ` set rows))
           \<or> (guild_id q = gid \<and> user_id q \<in> user_id ` set rows \<and> lev (xp q) = Some (level q)))
     \<and> (\<forall>q \<in> set xs. \<not> (guild_id q = gid \<and> user_id q \<in> user_id ` set rows) \<longrightarrow> q \<in> set ys)"

section \<open>What is assumed of the floating-point curve\<close>

text \<open>
  \<open>exp_exact base_xp level\<close> is the real number \<open>base_xp * (1.15 ^ level - 1)\<close> that
  the exponential branch approximates. \<open>float_accurate fexp base_xp level\<close> says that
  the integer the host computes is within one half (the final rounding) plus a relative
  error of \<open>2 ^ -40\<close> (the double arithmetic before it) of that number. It appears only
  as a hypothesis, for the levels a statement needs; double arithmetic meets it with a
  wide margin as long as \<open>math.pow\<close> does not overflow. \<open>ideal_fexp\<close> is the exact
  value rounded to the nearest integer: one evaluator that is accurate in this sense,
  used to instantiate the parameter in examples.
\<close>

definition exp_exact :: "int \<Rightarrow> int \<Rightarrow> real" where
  "exp_exact bx l = of_int bx * ((23 / 20) ^ nat l - 1)"

definition float_accurate :: "(int \<Rightarrow> int \<Rightarrow> int) \<Rightarrow> int \<Rightarrow> int \<Rightarrow> bool" where
  "float_accurate fexp bx l \<longleftrightarrow>
     \<bar>of_int (fexp bx l) - exp_exact bx l\<bar> \<le> 1 / 2 + \<bar>exp_exact bx l\<bar> / 2 ^ 40"

definition ideal_fexp :: "int \<Rightarrow> int \<Rightarrow> int" where
  "ideal_fexp bx l = round (exp_exact bx l)"

section \<open>Example inputs\<close>

text \<open>
  A guild for examples. The world is the set of roles the member holds; granting role
  55 is forbidden, role 99 does not exist, every other role is granted and then held.
  \<open>ideal_fscale\<close> rounds the exact product; \<open>first_of_range\<close> is a random source
  that always answers with the lower end of the range.
\<close>

definition example_guild :: "int set discord" where
  "example_guild =
     \<lparr>get_role = (\<lambda>w r. r \<noteq> 99),
      has_role = (\<lambda>w u r. r \<in> w),
      add_roles = (\<lambda>w u r. if r = 55 then (Raise_Forbidden, w) else (Add_Ok, insert r w)),
      guild_members = {7, 8},
      text_channel = (\<lambda>c. c = 500)\<rparr>"

definition example_store :: "user_row list \<Rightarrow> db" where
  "example_store rows =
     \<lparr>guild_settings = [1 \<mapsto> DEFAULT_SETTINGS],
      ignored_channels = {},
      blacklisted_roles = [],
      user_xp = rows,
      role_rewards = [\<lparr>rr_guild_id = 1, rr_level = 5, rr_role_id = 55\<rparr>,
                      \<lparr>rr_guild_id = 1, rr_level = 4, rr_role_id = 44\<rparr>,
                      \<lparr>rr_guild_id = 1, rr_level = 6, rr_role_id = 66\<rparr>]\<rparr>"

definition example_message :: message where
  "example_message =
     \<lparr>guild = Some 1, author_id = 7, author_bot = False, author_is_member = True,
      author_roles = [], channel_id = 3, channel_is_thread = False, content_len = 12,
      attachments = 0, mentions = 0\<rparr>"

definition ideal_fscale :: "int \<Rightarrow> real \<Rightarrow> int" where
  "ideal_fscale g m = round (of_int g * m)"

definition first_of_range :: "int \<Rightarrow> int \<Rightarrow> int" where
  "first_of_range lo hi = lo"

text \<open>Users 1 and 2 tie at 300 XP in guild 1, user 3 has 100 XP; user 9 is of guild 2.\<close>

definition tie_store :: db where
  "tie_store = example_store
     [\<lparr>guild_id = 1, user_id = 2, xp = 300, level = 1, last_message_ts = 0\<rparr>,
      \<lparr>guild_id = 1, user_id = 3, xp = 100, level = 0, last_message_ts = 0\<rparr>,
      \<lparr>guild_id = 2, user_id = 9, xp = 900, level = 2, last_message_ts = 0\<rparr>,
      \<lparr>guild_id = 1, user_id = 1, xp = 300, level = 1, last_message_ts = 0\<rparr>]"

text \<open>
  A store to recalculate: members 7 (level 3 stored, XP of level 6) and 8 (level 2
  stored, XP of level 0), user 9 who is not a member, and a row of another guild.
\<close>

definition recalc_store :: db where
  "recalc_store = example_store
     [\<lparr>guild_id = 1, user_id = 7, xp = 3900, level = 3, last_message_ts = 50\<rparr>,
      \<lparr>guild_id = 2, user_id = 7, xp = 5, level = 9, last_message_ts = 0\<rparr>,
      \<lparr>guild_id = 1, user_id = 9, xp = 160, level = 0, last_message_ts = 0\<rparr>,
      \<lparr>guild_id = 1, user_id = 8, xp = 10, level = 2, last_message_ts = 70\<rparr>]"

section \<open>The curve engine: evaluation and search\<close>

lemma lower_quadratic: "lower ''quadratic'' = ''quadratic''"
  by (simp add: lower_def lower_char_def)

lemma lower_linear: "lower ''linear'' = ''linear''"
  by (simp add: lower_def lower_char_def)

text \<open>
  C5. With the quadratic curve and \<open>base_xp = 100\<close>, \<open>a = 50\<close>, \<open>b = 0\<close>, the
  thresholds of levels 0, 1 and 2 are 0, 150 and 500, and a total of 149, 150, 499,
  500 XP gives level 0, 1, 1, 2.
\<close>

theorem quadratic_default_scenario:
  "xp_required_for_level fexp ''quadratic'' 100 50 0 0 = 0
   \<and> xp_required_for_level fexp ''quadratic'' 100 50 0 1 = 150
   \<and> xp_required_for_level fexp ''quadratic'' 100 50 0 2 = 500
   \<and> level_from_total_xp fexp ''quadratic'' 100 50 0 149 = Some 0
   \<and> level_from_total_xp fexp ''quadratic'' 100 50 0 150 = Some 1
   \<and> level_from_total_xp fexp ''quadratic'' 100 50 0 499 = Some 1
   \<and> level_from_total_xp fexp ''quadratic'' 100 50 0 500 = Some 2"
  by (simp add: level_from_total_xp_def ramp.simps xp_required_for_level_def
        lower_quadratic Let_def)

lemma xp_required_nonpos: "lv \<le> 0 \<Longrightarrow> xp_required_for_level fexp c bx a b lv = 0"
  by (simp add: xp_required_for_level_def)

lemma xp_required_linear:
  "0 < lv \<Longrightarrow> xp_required_for_level fexp ''linear'' bx a b lv = max 0 ((bx + a) * lv)"
  by (simp add: xp_required_for_level_def lower_linear Let_def)

lemma xp_required_quadratic:
  "0 < lv \<Longrightarrow> xp_required_for_level fexp ''quadratic'' bx a b lv = max 0 (bx * lv ^ 2 + a * lv + b)"
  by (simp add: xp_required_for_level_def lower_quadratic Let_def)

lemma lower_exponential: "lower ''exponential'' = ''exponential''"
  by (simp add: lower_def lower_char_def)

lemma xp_required_exponential:
  "0 < lv \<Longrightarrow> xp_required_for_level fexp ''exponential'' bx a b lv = fexp bx lv"
  by (simp add: xp_required_for_level_def lower_exponential Let_def)

text \<open>The first loop returns from every positive start, so the level search is total.\<close>

lemma ramp_returns:
  "1 \<le> hi \<Longrightarrow> \<exists>h. ramp fexp c bx a b t hi = Some h \<and> hi \<le> h"
proof (induction "nat (10001 - hi)" arbitrary: hi rule: less_induct)
  case less
  show ?case
  proof (cases "xp_required_for_level fexp c bx a b hi \<le> t \<and> \<not> hi * 2 > 10000")
    case True
    then have "nat (10001 - hi * 2) < nat (10001 - hi)" using less.prems by simp
    from less.hyps[OF this] less.prems obtain h where
      "ramp fexp c bx a b t (hi * 2) = Some h" "hi * 2 \<le> h" by auto
    then show ?thesis using True less.prems
      by (subst ramp.simps) (simp add: Let_def)
  next
    case False
    then show ?thesis using less.prems
      by (subst ramp.simps) (auto simp add: Let_def)
  qed
qed

lemma level_from_total_xp_returns: "\<exists>l. level_from_total_xp fexp c bx a b t = Some l"
proof -
  obtain h where "ramp fexp c bx a b (max 0 t) 1 = Some h"
    using ramp_returns[of 1 fexp c bx a b "max 0 t"] by auto
  then show ?thesis by (simp add: level_from_total_xp_def Let_def)
qed

text \<open>
  Where the thresholds increase strictly up to twice the level, the search finds the
  level of a threshold again.
\<close>

lemma ramp_roundtrip:
  assumes mono: "\<And>i j. 0 \<le> i \<Longrightarrow> i < j \<Longrightarrow> j \<le> max 1 (2 * L) \<Longrightarrow>
       xp_required_for_level fexp c bx a b i < xp_required_for_level fexp c bx a b j"
    and L: "0 \<le> L" "L \<le> 10000"
  shows "1 \<le> hi \<Longrightarrow> hi \<le> max 1 (2 * L) \<Longrightarrow>
     \<exists>h. ramp fexp c bx a b (xp_required_for_level fexp c bx a b L) hi = Some h
         \<and> L \<le> h \<and> h \<le> max 1 (2 * L)"
proof (induction "nat (10001 - hi)" arbitrary: hi rule: less_induct)
  case less
  let ?req = "xp_required_for_level fexp c bx a b"
  show ?case
  proof (cases "?req hi \<le> ?req L")
    case True
    have hiL: "hi \<le> L"
    proof (rule ccontr)
      assume "\<not> hi \<le> L"
      then have "?req L < ?req hi" using mono[of L hi] L less.prems by simp
      with True show False by simp
    qed
    show ?thesis
    proof (cases "hi * 2 > 10000")
      case True
      then show ?thesis using \<open>?req hi \<le> ?req L\<close> hiL L less.prems
        by (subst ramp.simps) (simp add: Let_def)
    next
      case False
      have "nat (10001 - hi * 2) < nat (10001 - hi)" using False less.prems by simp
      from less.hyps[OF this] hiL less.prems obtain h where
        "ramp fexp c bx a b (?req L) (hi * 2) = Some h" "L \<le> h" "h \<le> max 1 (2 * L)" by auto
      then show ?thesis using False \<open>?req hi \<le> ?req L\<close>
        by (subst ramp.simps) (simp add: Let_def)
    qed
  next
    case False
    have "L \<le> hi"
    proof (rule ccontr)
      assume "\<not> L \<le> hi"
      then have "?req hi < ?req L" using mono[of hi L] L less.prems by simp
      with False show False by simp
    qed
    then show ?thesis using False less.prems
      by (subst ramp.simps) (simp add: Let_def)
  qed
qed

lemma bsearch_roundtrip:
  assumes mono: "\<And>i j. 0 \<le> i \<Longrightarrow> i < j \<Longrightarrow> j \<le> H \<Longrightarrow>
       xp_required_for_level fexp c bx a b i < xp_required_for_level fexp c bx a b j"
  shows "0 \<le> lo \<Longrightarrow> lo \<le> L \<Longrightarrow> L \<le> hi \<Longrightarrow> hi \<le> H \<Longrightarrow>
     bsearch fexp c bx a b (xp_required_for_level fexp c bx a b L) lo hi = L"
proof (induction "nat (hi - lo)" arbitrary: lo hi rule: less_induct)
  case less
  let ?req = "xp_required_for_level fexp c bx a b"
  show ?case
  proof (cases "lo < hi")
    case False
    then show ?thesis using less.prems by (subst bsearch.simps) simp
  next
    case True
    define mid where "mid = (lo + hi + 1) div 2"
    have mid: "lo < mid" "mid \<le> hi" using True by (auto simp: mid_def)
    show ?thesis
    proof (cases "?req mid \<le> ?req L")
      case le: True
      have "mid \<le> L"
      proof (rule ccontr)
        assume "\<not> mid \<le> L"
        then have "?req L < ?req mid" using mono[of L mid] less.prems mid by simp
        with le show False by simp
      qed
      moreover have "nat (hi - mid) < nat (hi - lo)" using mid by simp
      ultimately have "bsearch fexp c bx a b (?req L) mid hi = L"
        using less.hyps[of hi mid] less.prems mid by simp
      then show ?thesis using True le
        by (subst bsearch.simps) (simp add: Let_def mid_def)
    next
      case gt: False
      have "L < mid"
      proof (rule ccontr)
        assume "\<not> L < mid"
        then have "?req mid \<le> ?req L" using mono[of mid L] less.prems mid
          by (cases "mid = L") auto
        with gt show False by simp
      qed
      moreover have "nat (mid - 1 - lo) < nat (hi - lo)" using mid by simp
      ultimately have "bsearch fexp c bx a b (?req L) lo (mid - 1) = L"
        using less.hyps[of "mid - 1" lo] less.prems mid by simp
      then show ?thesis using True gt
        by (subst bsearch.simps) (simp add: Let_def mid_def)
    qed
  qed
qed

lemma roundtrip_generic:
  assumes step: "\<And>l. 0 \<le> l \<Longrightarrow> l < max 1 (2 * L) \<Longrightarrow>
       xp_required_for_level fexp c bx a b l < xp_required_for_level fexp c bx a b (l + 1)"
    and L: "0 \<le> L" "L \<le> 10000"
  shows "level_from_total_xp fexp c bx a b (xp_required_for_level fexp c bx a b L) = Some L"
proof -
  let ?req = "xp_required_for_level fexp c bx a b"
  have mono: "0 \<le> i \<Longrightarrow> i < j \<Longrightarrow> j \<le> max 1 (2 * L) \<Longrightarrow> ?req i < ?req j" for i j
  proof (induction "nat (j - i)" arbitrary: j)
    case 0
    then show ?case by simp
  next
    case (Suc n)
    show ?case
    proof (cases "j = i + 1")
      case True
      then show ?thesis using step[of i] Suc.prems by simp
    next
      case False
      then have "?req i < ?req (j - 1)" using Suc.hyps(1)[of "j - 1"] Suc.hyps(2) Suc.prems by simp
      moreover have "?req (j - 1) < ?req j" using step[of "j - 1"] Suc.prems by simp
      ultimately show ?thesis by simp
    qed
  qed
  have nonneg: "0 \<le> ?req L"
  proof (cases "L = 0")
    case True then show ?thesis by (simp add: xp_required_nonpos)
  next
    case False
    then have "?req 0 < ?req L" using mono[of 0 L] L by simp
    then show ?thesis by (simp add: xp_required_nonpos)
  qed
  obtain h where h: "ramp fexp c bx a b (?req L) 1 = Some h" "L \<le> h" "h \<le> max 1 (2 * L)"
    using ramp_roundtrip[of L fexp c bx a b 1] mono L by auto
  have "bsearch fexp c bx a b (?req L) 0 h = L"
    using bsearch_roundtrip[of "max 1 (2 * L)" fexp c bx a b 0 L h] mono L h by simp
  then show ?thesis using h nonneg by (simp add: level_from_total_xp_def Let_def max_def)
qed

subsection \<open>Monotonicity of the three curves\<close>

lemma linear_mono: "0 \<le> l \<Longrightarrow>
  xp_required_for_level fexp ''linear'' bx a b l \<le> xp_required_for_level fexp ''linear'' bx a b (l + 1)"
proof (cases "l = 0")
  case True
  then show ?thesis by (simp add: xp_required_nonpos xp_required_linear)
next
  case False
  assume "0 \<le> l"
  with False have l: "0 < l" by simp
  show ?thesis
  proof (cases "0 \<le> bx + a")
    case True
    then have "(bx + a) * l \<le> (bx + a) * (l + 1)" by (intro mult_left_mono) auto
    then show ?thesis using l by (simp add: xp_required_linear max_def)
  next
    case False
    then have "(bx + a) * (l + 1) \<le> 0" "(bx + a) * l \<le> 0"
      using l by (auto intro!: mult_nonpos_nonneg)
    then show ?thesis using l by (simp add: xp_required_linear max_def)
  qed
qed

lemma linear_strict: "1 \<le> bx + a \<Longrightarrow> 0 \<le> l \<Longrightarrow>
  xp_required_for_level fexp ''linear'' bx a b l < xp_required_for_level fexp ''linear'' bx a b (l + 1)"
proof (cases "l = 0")
  case True
  assume "1 \<le> bx + a"
  then show ?thesis using True by (simp add: xp_required_nonpos xp_required_linear)
next
  case False
  assume k: "1 \<le> bx + a" and "0 \<le> l"
  with False have l: "0 < l" by simp
  have "0 < (bx + a) * l" using k l by simp
  moreover have "(bx + a) * l < (bx + a) * (l + 1)" using k by (simp add: algebra_simps)
  ultimately show ?thesis using l by (simp add: xp_required_linear max_def)
qed

lemma quad_step: "(bx::int) * (l + 1) ^ 2 + a * (l + 1) + b = (bx * l ^ 2 + a * l + b) + (bx * (2 * l + 1) + a)"
  by (simp add: power2_eq_square algebra_simps)

lemma quadratic_mono:
  assumes "0 \<le> bx" "0 \<le> 3 * bx + a" "0 \<le> l"
  shows "xp_required_for_level fexp ''quadratic'' bx a b l
         \<le> xp_required_for_level fexp ''quadratic'' bx a b (l + 1)"
proof (cases "l = 0")
  case True
  then show ?thesis by (simp add: xp_required_nonpos xp_required_quadratic)
next
  case False
  with assms have l: "1 \<le> l" by simp
  have "bx * 3 \<le> bx * (2 * l + 1)" using assms(1) l by (intro mult_left_mono) auto
  then have "0 \<le> bx * (2 * l + 1) + a" using assms(2) by simp
  then show ?thesis using l by (simp add: xp_required_quadratic quad_step max_def)
qed

lemma quad_pos:
  assumes "0 \<le> bx" "1 \<le> bx + a + b" "1 \<le> 3 * bx + a" "1 \<le> l"
  shows "1 \<le> bx * l ^ 2 + a * l + (b::int)"
  using assms(4)
proof (induction l rule: int_ge_induct)
  case base
  then show ?case using assms(2) by simp
next
  case (step i)
  have "bx * 3 \<le> bx * (2 * i + 1)" using assms(1) step.hyps by (intro mult_left_mono) auto
  then have "1 \<le> bx * (2 * i + 1) + a" using assms(3) by simp
  then show ?case using step.IH by (simp only: quad_step)
qed

lemma quadratic_strict:
  assumes "0 \<le> bx" "1 \<le> bx + a + b" "1 \<le> 3 * bx + a" "0 \<le> l"
  shows "xp_required_for_level fexp ''quadratic'' bx a b l
         < xp_required_for_level fexp ''quadratic'' bx a b (l + 1)"
proof (cases "l = 0")
  case True
  then show ?thesis using assms by (simp add: xp_required_nonpos xp_required_quadratic)
next
  case False
  with assms have l: "1 \<le> l" by simp
  have pos: "1 \<le> bx * l ^ 2 + a * l + b" by (rule quad_pos[OF assms(1-3) l])
  have "bx * 3 \<le> bx * (2 * l + 1)" using assms(1) l by (intro mult_left_mono) auto
  then have "1 \<le> bx * (2 * l + 1) + a" using assms(3) by simp
  then show ?thesis using l pos by (simp add: xp_required_quadratic quad_step max_def)
qed

lemma exp_exact_Suc: "0 \<le> l \<Longrightarrow>
  exp_exact bx (l + 1) = (23 / 20) * (exp_exact bx l + of_int bx) - of_int bx"
proof -
  assume "0 \<le> l"
  then have "nat (l + 1) = Suc (nat l)" by simp
  then show ?thesis by (simp add: exp_exact_def algebra_simps)
qed

lemma exp_exact_ge: "0 \<le> bx \<Longrightarrow> 1 \<le> l \<Longrightarrow> 3 / 20 * of_int bx \<le> exp_exact bx l"
proof -
  assume bx: "0 \<le> bx" and l: "1 \<le> l"
  have "(23 / 20 :: real) ^ 1 \<le> (23 / 20) ^ nat l"
    using l by (intro power_increasing) auto
  then have "3 / 20 \<le> (23 / 20 :: real) ^ nat l - 1" by simp
  then have "of_int bx * (3 / 20) \<le> of_int bx * ((23 / 20 :: real) ^ nat l - 1)"
    using bx by (intro mult_left_mono) auto
  then show ?thesis by (simp add: exp_exact_def)
qed

lemma float_accurateD:
  assumes "float_accurate fexp bx l" "0 \<le> exp_exact bx l"
  shows "real_of_int (fexp bx l) \<le> exp_exact bx l + 1 / 2 + exp_exact bx l / 1099511627776"
    and "exp_exact bx l - 1 / 2 - exp_exact bx l / 1099511627776 \<le> real_of_int (fexp bx l)"
  using assms by (simp_all add: float_accurate_def abs_le_iff)

lemma exponential_mono:
  assumes bx: "1 \<le> bx" and l: "0 \<le> l"
    and acc0: "0 < l \<longrightarrow> float_accurate fexp bx l"
    and acc1: "float_accurate fexp bx (l + 1)"
  shows "xp_required_for_level fexp ''exponential'' bx a b l
         \<le> xp_required_for_level fexp ''exponential'' bx a b (l + 1)"
proof (cases "l = 0")
  case True
  have e: "3 / 20 * of_int bx \<le> exp_exact bx 1" using exp_exact_ge[of bx 1] bx by simp
  have B: "1 \<le> real_of_int bx" using bx by simp
  have "float_accurate fexp bx 1" using acc1 True by simp
  from float_accurateD(2)[OF this] e B
  have "real_of_int (-1) < real_of_int (fexp bx 1)" by simp
  then have "-1 < fexp bx 1" by (simp only: of_int_less_iff)
  then show ?thesis using True by (simp add: xp_required_nonpos xp_required_exponential)
next
  case False
  with l have l1: "1 \<le> l" by simp
  define E where "E = exp_exact bx l"
  define B where "B = real_of_int bx"
  have E: "3 / 20 * B \<le> E" using exp_exact_ge[of bx l] bx l1 by (simp add: E_def B_def)
  have B: "1 \<le> B" using bx by (simp add: B_def)
  have E1: "exp_exact bx (l + 1) = 23 / 20 * (E + B) - B"
    using exp_exact_Suc[of l bx] l by (simp add: E_def B_def)
  have E0: "0 \<le> E" using E B by argo
  have a0: "real_of_int (fexp bx l) \<le> E + 1 / 2 + E / 1099511627776"
    using float_accurateD(1)[of fexp bx l] acc0 l1 E0 by (simp add: E_def)
  have "0 \<le> exp_exact bx (l + 1)" unfolding E1 using E0 B by argo
  from float_accurateD(2)[OF acc1 this]
  have a1: "23 / 20 * (E + B) - B - 1 / 2 - (23 / 20 * (E + B) - B) / 1099511627776
        \<le> real_of_int (fexp bx (l + 1))"
    unfolding E1 .
  have "real_of_int (fexp bx l) - 1 < real_of_int (fexp bx (l + 1))"
    using a0 a1 E B by argo
  then have "real_of_int (fexp bx l - 1) < real_of_int (fexp bx (l + 1))" by simp
  then have "fexp bx l - 1 < fexp bx (l + 1)" by (simp only: of_int_less_iff)
  then show ?thesis using l1 by (simp add: xp_required_exponential)
qed

lemma exponential_first:
  assumes "4 \<le> bx" "float_accurate fexp bx 1"
  shows "0 < fexp bx 1"
proof -
  have e: "3 / 20 * of_int bx \<le> exp_exact bx 1" using exp_exact_ge[of bx 1] assms(1) by simp
  have B: "4 \<le> real_of_int bx" using assms(1) by simp
  have e0: "0 \<le> exp_exact bx 1" using e B by argo
  from float_accurateD(2)[OF assms(2) e0] e B
  have "0 < real_of_int (fexp bx 1)" by argo
  then show ?thesis by simp
qed

lemma exponential_step:
  assumes bx: "1 \<le> bx" and l: "1 \<le> l"
    and acc0: "float_accurate fexp bx l" and acc1: "float_accurate fexp bx (l + 1)"
    and big: "34 / 5 \<le> exp_exact bx l + of_int bx"
  shows "fexp bx l < fexp bx (l + 1)"
proof -
  define E where "E = exp_exact bx l"
  define B where "B = real_of_int bx"
  have E: "3 / 20 * B \<le> E" using exp_exact_ge[of bx l] bx l by (simp add: E_def B_def)
  have B: "1 \<le> B" using bx by (simp add: B_def)
  have X: "34 / 5 \<le> E + B" using big by (simp add: E_def B_def)
  have E1: "exp_exact bx (l + 1) = 23 / 20 * (E + B) - B"
    using exp_exact_Suc[of l bx] l by (simp add: E_def B_def)
  have E0: "0 \<le> E" using E B by argo
  have a0: "real_of_int (fexp bx l) \<le> E + 1 / 2 + E / 1099511627776"
    using float_accurateD(1)[of fexp bx l] acc0 E0 by (simp add: E_def)
  have "0 \<le> exp_exact bx (l + 1)" unfolding E1 using E0 B by argo
  from float_accurateD(2)[OF acc1 this]
  have a1: "23 / 20 * (E + B) - B - 1 / 2 - (23 / 20 * (E + B) - B) / 1099511627776
        \<le> real_of_int (fexp bx (l + 1))"
    unfolding E1 .
  have "real_of_int (fexp bx l) < real_of_int (fexp bx (l + 1))"
    using a0 a1 E B X by argo
  then show ?thesis by (simp only: of_int_less_iff)
qed

lemma accurate_value:
  assumes "float_accurate fexp bx l" "0 \<le> exp_exact bx l"
    and "real_of_int k - 1 / 2 < exp_exact bx l - exp_exact bx l / 1099511627776"
    and "exp_exact bx l + exp_exact bx l / 1099511627776 < real_of_int k + 1 / 2"
  shows "fexp bx l = k"
proof -
  have "real_of_int (fexp bx l) < real_of_int (k + 1)" "real_of_int (k - 1) < real_of_int (fexp bx l)"
    using float_accurateD[OF assms(1,2)] assms(3,4) by simp_all
  then have "fexp bx l < k + 1" "k - 1 < fexp bx l" by (simp_all only: of_int_less_iff)
  then show ?thesis by simp
qed

lemma exp_exact_5:
  "exp_exact 5 1 = 3 / 4" "exp_exact 5 2 = 129 / 80" "exp_exact 5 3 = 4167 / 1600"
  by (simp_all add: exp_exact_def power_divide eval_nat_numeral)

lemma exp_exact_mono: "0 \<le> bx \<Longrightarrow> k \<le> l \<Longrightarrow> exp_exact bx k \<le> exp_exact bx l"
proof -
  assume bx: "0 \<le> bx" and kl: "k \<le> l"
  have "(23 / 20 :: real) ^ nat k \<le> (23 / 20) ^ nat l"
    using kl by (intro power_increasing) auto
  then have "of_int bx * ((23 / 20 :: real) ^ nat k - 1) \<le> of_int bx * ((23 / 20) ^ nat l - 1)"
    using bx by (intro mult_left_mono) auto
  then show ?thesis by (simp add: exp_exact_def)
qed

lemma exponential_strict:
  assumes bx: "5 \<le> bx" and l: "0 \<le> l"
    and acc0: "0 < l \<longrightarrow> float_accurate fexp bx l"
    and acc1: "float_accurate fexp bx (l + 1)"
  shows "xp_required_for_level fexp ''exponential'' bx a b l
         < xp_required_for_level fexp ''exponential'' bx a b (l + 1)"
proof (cases "l = 0")
  case True
  have "0 < fexp bx 1" using exponential_first[of bx fexp] bx acc1 True by simp
  then show ?thesis using True by (simp add: xp_required_nonpos xp_required_exponential)
next
  case False
  with l have l1: "1 \<le> l" by simp
  have a0: "float_accurate fexp bx l" using acc0 l1 by simp
  have "fexp bx l < fexp bx (l + 1)"
  proof (cases "6 \<le> bx")
    case True
    have "3 / 20 * real_of_int bx \<le> exp_exact bx l" using exp_exact_ge[of bx l] bx l1 by simp
    moreover have "6 \<le> real_of_int bx" using True by simp
    ultimately have "34 / 5 \<le> exp_exact bx l + of_int bx" by argo
    then show ?thesis using exponential_step[of bx l fexp] bx l1 a0 acc1 by simp
  next
    case False
    then have b5: "bx = 5" using bx by simp
    consider "l = 1" | "l = 2" | "3 \<le> l" using l1 by linarith
    then show ?thesis
    proof cases
      case 1
      have "fexp 5 1 = 1" using a0 unfolding b5 1
        by (rule accurate_value) (simp_all add: exp_exact_5)
      moreover have "fexp 5 2 = 2" 
        by (rule accurate_value[of fexp 5 2 2]) (use acc1 in \<open>simp_all add: b5 1 exp_exact_5\<close>)
      ultimately show ?thesis by (simp add: b5 1)
    next
      case 2
      have "fexp 5 2 = 2" using a0 unfolding b5 2
        by (rule accurate_value) (simp_all add: exp_exact_5)
      moreover have "fexp 5 3 = 3"
        by (rule accurate_value[of fexp 5 3 3]) (use acc1 in \<open>simp_all add: b5 2 exp_exact_5\<close>)
      ultimately show ?thesis by (simp add: b5 2)
    next
      case 3
      have "exp_exact 5 3 \<le> exp_exact 5 l" using 3 by (intro exp_exact_mono) auto
      then have "34 / 5 \<le> exp_exact bx l + of_int bx" by (simp add: b5 exp_exact_5)
      then show ?thesis using exponential_step[of bx l fexp] bx l1 a0 acc1 by simp
    qed
  qed
  then show ?thesis using l1 by (simp add: xp_required_exponential)
qed

lemma ideal_fexp_accurate: "float_accurate ideal_fexp bx l"
proof -
  have "\<bar>real_of_int (round (exp_exact bx l)) - exp_exact bx l\<bar> \<le> 1 / 2"
    by (rule of_int_round_abs_le)
  moreover have "0 \<le> \<bar>exp_exact bx l\<bar> / 2 ^ 40" by simp
  ultimately show ?thesis unfolding float_accurate_def ideal_fexp_def by linarith
qed

text \<open>
  C6. For every supported curve and every level \<open>L \<ge> 0\<close> the threshold of \<open>L + 1\<close>
  is at least the threshold of \<open>L\<close>, and the threshold of every level \<open>\<le> 0\<close> is 0.
  The parameters this holds for: any for the linear curve; \<open>base_xp \<ge> 0\<close> and
  \<open>a \<ge> - 3 * base_xp\<close> for the quadratic curve; \<open>base_xp \<ge> 1\<close> for the exponential
  curve, whose two thresholds are assumed to be computed accurately.
\<close>

theorem required_xp_nondecreasing:
  assumes "0 \<le> L"
    and "c = ''linear''
         \<or> c = ''quadratic'' \<and> 0 \<le> bx \<and> 0 \<le> 3 * bx + a
         \<or> c = ''exponential'' \<and> 1 \<le> bx
             \<and> (0 < L \<longrightarrow> float_accurate fexp bx L) \<and> float_accurate fexp bx (L + 1)"
  shows "xp_required_for_level fexp c bx a b L \<le> xp_required_for_level fexp c bx a b (L + 1)
         \<and> (\<forall>c' l. l \<le> 0 \<longrightarrow> xp_required_for_level fexp c' bx a b l = 0)"
proof -
  have "xp_required_for_level fexp c bx a b L \<le> xp_required_for_level fexp c bx a b (L + 1)"
    using assms linear_mono quadratic_mono exponential_mono by blast
  then show ?thesis by (simp add: xp_required_nonpos)
qed

theorem required_xp_nondecreasing_witness:
  "xp_required_for_level ideal_fexp ''linear'' 10 5 0 3
     \<le> xp_required_for_level ideal_fexp ''linear'' 10 5 0 (3 + 1)
   \<and> xp_required_for_level ideal_fexp ''quadratic'' 100 50 0 1
     \<le> xp_required_for_level ideal_fexp ''quadratic'' 100 50 0 (1 + 1)
   \<and> xp_required_for_level ideal_fexp ''exponential'' 100 50 0 1
     \<le> xp_required_for_level ideal_fexp ''exponential'' 100 50 0 (1 + 1)
   \<and> xp_required_for_level ideal_fexp ''exponential'' 100 50 0 (-2) = 0"
  using required_xp_nondecreasing[where L = 3 and c = "''linear''" and bx = 10 and a = 5
      and b = 0 and fexp = ideal_fexp]
    required_xp_nondecreasing[where L = 1 and c = "''quadratic''" and bx = 100 and a = 50
      and b = 0 and fexp = ideal_fexp]
    required_xp_nondecreasing[where L = 1 and c = "''exponential''" and bx = 100 and a = 50
      and b = 0 and fexp = ideal_fexp]
  by (simp add: ideal_fexp_accurate)

lemma ideal_vals: "ideal_fexp 100 1 = 15" "ideal_fexp 100 2 = 32" "ideal_fexp 100 3 = 52"
  by (simp_all add: ideal_fexp_def exp_exact_def round_def floor_eq_iff power_divide)

text \<open>
  C3. For every level \<open>L\<close> in \<open>[0, 200]\<close> and each of the three curves, the level of
  the threshold of \<open>L\<close> is \<open>L\<close>, for these parameters: \<open>base_xp + a \<ge> 1\<close> for the
  linear curve; \<open>base_xp \<ge> 0\<close>, \<open>base_xp + a + b \<ge> 1\<close> and \<open>3 * base_xp + a \<ge> 1\<close>
  for the quadratic curve; \<open>base_xp \<ge> 5\<close> for the exponential curve, whose thresholds
  up to level 400 (the search looks at levels up to \<open>2 * L\<close>) are assumed to be computed
  accurately. The defaults 100, 50, 0 are among them for each curve. For the other
  parameters that \<open>cfg_setcurve\<close> accepts the round trip can fail.
\<close>

theorem level_roundtrip:
  assumes "0 \<le> L" "L \<le> 200"
    and "c = ''linear'' \<and> 1 \<le> bx + a
         \<or> c = ''quadratic'' \<and> 0 \<le> bx \<and> 1 \<le> bx + a + b \<and> 1 \<le> 3 * bx + a
         \<or> c = ''exponential'' \<and> 5 \<le> bx
             \<and> (\<forall>l. 1 \<le> l \<and> l \<le> 400 \<longrightarrow> float_accurate fexp bx l)"
  shows "level_from_total_xp fexp c bx a b (xp_required_for_level fexp c bx a b L) = Some L"
proof (rule roundtrip_generic)
  fix l :: int
  assume l: "0 \<le> l" "l < max 1 (2 * L)"
  then have l400: "l + 1 \<le> 400" using assms(2) by simp
  from assms(3) show "xp_required_for_level fexp c bx a b l
        < xp_required_for_level fexp c bx a b (l + 1)"
  proof (elim disjE conjE)
    assume "c = ''linear''" "1 \<le> bx + a"
    then show ?thesis using linear_strict[of bx a l] l by simp
  next
    assume "c = ''quadratic''" "0 \<le> bx" "1 \<le> bx + a + b" "1 \<le> 3 * bx + a"
    then show ?thesis using quadratic_strict[of bx a b l] l by simp
  next
    assume "c = ''exponential''" "5 \<le> bx"
      and acc: "\<forall>l. 1 \<le> l \<and> l \<le> 400 \<longrightarrow> float_accurate fexp bx l"
    moreover have "0 < l \<longrightarrow> float_accurate fexp bx l" using acc l400 by simp
    moreover have "float_accurate fexp bx (l + 1)" using acc l l400 by simp
    ultimately show ?thesis using exponential_strict[of bx l fexp] l by simp
  qed
next
  show "0 \<le> L" by fact
  show "L \<le> 10000" using assms(2) by simp
qed

theorem level_roundtrip_witness:
  "level_from_total_xp ideal_fexp ''linear'' 100 50 0 30000 = Some 200
   \<and> level_from_total_xp ideal_fexp ''quadratic'' 100 50 0 4010000 = Some 200
   \<and> level_from_total_xp ideal_fexp ''exponential'' 100 50 0 52 = Some 3"
  using level_roundtrip[where L = 200 and c = "''linear''" and bx = 100 and a = 50
      and b = 0 and fexp = ideal_fexp]
    level_roundtrip[where L = 200 and c = "''quadratic''" and bx = 100 and a = 50
      and b = 0 and fexp = ideal_fexp]
    level_roundtrip[where L = 3 and c = "''exponential''" and bx = 100 and a = 50
      and b = 0 and fexp = ideal_fexp]
  by (simp add: ideal_fexp_accurate xp_required_linear xp_required_quadratic
        xp_required_exponential ideal_vals)

text \<open>
  The round trip outside those parameters. \<open>cfg_setcurve\<close> accepts every \<open>base_xp\<close>
  from 1 to 1000000. With the exponential curve and \<open>base_xp = 1\<close> the thresholds of
  the levels 1 to 4 are 0, 0, 1, 1, so the level of the threshold of level 0 is 2; with
  \<open>base_xp = 4\<close> they are 1, 1, 2, 3, so the level of the threshold of level 1 is 2.
\<close>

lemma small_exponential_base_loses_level_0:
  assumes "\<forall>l. 1 \<le> l \<and> l \<le> 4 \<longrightarrow> float_accurate fexp 1 l"
  shows "level_from_total_xp fexp ''exponential'' 1 a b
           (xp_required_for_level fexp ''exponential'' 1 a b 0) = Some 2"
proof -
  have e: "exp_exact 1 1 = 3 / 20" "exp_exact 1 2 = 129 / 400" "exp_exact 1 3 = 4167 / 8000"
    "exp_exact 1 4 = 119841 / 160000"
    by (simp_all add: exp_exact_def power_divide eval_nat_numeral)
  have acc: "float_accurate fexp 1 1" "float_accurate fexp 1 2" "float_accurate fexp 1 3"
    "float_accurate fexp 1 4" using assms by simp_all
  have f1: "fexp 1 1 = 0"
  proof -
    have "real_of_int (fexp 1 1) < real_of_int 1" "real_of_int (- 1) < real_of_int (fexp 1 1)"
      using float_accurateD[OF acc(1)] by (simp_all add: e)
    then have "fexp 1 1 < 1" "- 1 < fexp 1 1" by (simp_all only: of_int_less_iff)
    then show ?thesis by simp
  qed
  have f2: "fexp 1 2 = 0"
  proof -
    have "real_of_int (fexp 1 2) < real_of_int 1" "real_of_int (- 1) < real_of_int (fexp 1 2)"
      using float_accurateD[OF acc(2)] by (simp_all add: e)
    then have "fexp 1 2 < 1" "- 1 < fexp 1 2" by (simp_all only: of_int_less_iff)
    then show ?thesis by simp
  qed
  have f3: "fexp 1 3 = 1"
  proof -
    have "real_of_int (fexp 1 3) < real_of_int 2" "real_of_int 0 < real_of_int (fexp 1 3)"
      using float_accurateD[OF acc(3)] by (simp_all add: e)
    then have "fexp 1 3 < 2" "0 < fexp 1 3" by (simp_all only: of_int_less_iff)
    then show ?thesis by simp
  qed
  have f4: "fexp 1 4 = 1"
  proof -
    have "real_of_int (fexp 1 4) < real_of_int 2" "real_of_int 0 < real_of_int (fexp 1 4)"
      using float_accurateD[OF acc(4)] by (simp_all add: e)
    then have "fexp 1 4 < 2" "0 < fexp 1 4" by (simp_all only: of_int_less_iff)
    then show ?thesis by simp
  qed
  have req: "xp_required_for_level fexp ''exponential'' 1 a b 0 = 0"
    "xp_required_for_level fexp ''exponential'' 1 a b 1 = 0"
    "xp_required_for_level fexp ''exponential'' 1 a b 2 = 0"
    "xp_required_for_level fexp ''exponential'' 1 a b 3 = 1"
    "xp_required_for_level fexp ''exponential'' 1 a b 4 = 1"
    by (simp_all add: xp_required_nonpos xp_required_exponential f1 f2 f3 f4)
  have r: "ramp fexp ''exponential'' 1 a b 0 1 = Some 4"
    by (simp add: ramp.simps req)
  have s: "bsearch fexp ''exponential'' 1 a b 0 0 4 = 2"
    by (simp add: req Let_def)
  show ?thesis by (simp add: level_from_total_xp_def req r s)
qed

lemma ideal_small_vals:
  "ideal_fexp 4 1 = 1" "ideal_fexp 4 2 = 1" "ideal_fexp 4 3 = 2" "ideal_fexp 4 4 = 3"
  by (simp_all add: ideal_fexp_def exp_exact_def round_def floor_eq_iff power_divide
        eval_nat_numeral)

lemma exponential_base_4_repeats_threshold:
  "xp_required_for_level ideal_fexp ''exponential'' 4 a b 1 = 1
   \<and> xp_required_for_level ideal_fexp ''exponential'' 4 a b 2 = 1
   \<and> level_from_total_xp ideal_fexp ''exponential'' 4 a b 1 = Some 2"
proof -
  have req: "xp_required_for_level ideal_fexp ''exponential'' 4 a b 1 = 1"
    "xp_required_for_level ideal_fexp ''exponential'' 4 a b 2 = 1"
    "xp_required_for_level ideal_fexp ''exponential'' 4 a b 3 = 2"
    "xp_required_for_level ideal_fexp ''exponential'' 4 a b 4 = 3"
    by (simp_all add: xp_required_exponential ideal_small_vals)
  have r: "ramp ideal_fexp ''exponential'' 4 a b 1 1 = Some 4"
    by (simp add: ramp.simps req)
  have s: "bsearch ideal_fexp ''exponential'' 4 a b 1 0 4 = 2"
    by (simp add: req Let_def)
  show ?thesis by (simp add: level_from_total_xp_def req r s)
qed

theorem roundtrip_fails_for_small_exponential_base:
  "level_from_total_xp ideal_fexp ''exponential'' 1 50 0
     (xp_required_for_level ideal_fexp ''exponential'' 1 50 0 0) = Some 2
   \<and> level_from_total_xp ideal_fexp ''exponential'' 4 50 0
     (xp_required_for_level ideal_fexp ''exponential'' 4 50 0 1) = Some 2"
  using small_exponential_base_loses_level_0[of ideal_fexp 50 0]
    exponential_base_4_repeats_threshold[of 50 0]
  by (simp add: ideal_fexp_accurate)

section \<open>The message pipeline: cooldown and timestamps\<close>

lemma get_settings_tables [simp]:
  "user_xp (snd (get_settings d g)) = user_xp d"
  "role_rewards (snd (get_settings d g)) = role_rewards d"
  "ignored_channels (snd (get_settings d g)) = ignored_channels d"
  "blacklisted_roles (snd (get_settings d g)) = blacklisted_roles d"
  by (simp_all add: get_settings_def split: option.splits)

lemma get_settings_again [simp]:
  "get_settings (snd (get_settings d g)) g = (fst (get_settings d g), snd (get_settings d g))"
  by (simp add: get_settings_def split: option.splits)

lemma get_last_message_ts_settings [simp]:
  "get_last_message_ts (snd (get_settings d g)) g' u = get_last_message_ts d g' u"
  by (simp add: get_last_message_ts_def)

lemma add_xp_returns:
  "\<exists>r. add_xp_and_check_level_up fexp D w d gid mem uid gain = Some r"
proof -
  obtain s d1 where sd: "get_settings d gid = (s, d1)" by (cases "get_settings d gid")
  define tot where "tot = max 0 ((case find (is_user gid uid) (user_xp d1) of None \<Rightarrow> 0 | Some r \<Rightarrow> xp r) + gain)"
  obtain lvl where "level_from_total_xp fexp (curve_type s) (base_xp s) (curve_a s) (curve_b s) tot = Some lvl"
    using level_from_total_xp_returns by blast
  then show ?thesis
    by (simp add: add_xp_and_check_level_up_def sd Let_def tot_def split: prod.splits)
qed

lemma add_xp_not_None [simp]:
  "add_xp_and_check_level_up fexp D w d gid mem uid gain \<noteq> None"
  using add_xp_returns[of fexp D w d gid mem uid gain] by auto

lemma on_message_returns: "\<exists>res. on_message fexp fscale randint D w d now m = Some res"
  unfolding on_message_def
  by (simp add: Let_def split: option.split prod.split)

lemma find_map_preserve:
  "(\<And>x. P (f x) = P x) \<Longrightarrow> find P (map f xs) = map_option f (find P xs)"
  by (induction xs) auto

lemma is_user_upd [simp]:
  "is_user g u (r\<lparr>last_message_ts := t\<rparr>) = is_user g u r"
  "is_user g u (r\<lparr>xp := x\<rparr>) = is_user g u r"
  "is_user g u (r\<lparr>level := l\<rparr>) = is_user g u r"
  by (simp_all add: is_user_def)

lemma find_set_last:
  "find (is_user g u) (user_xp (set_last_message_ts d g u t))
     = map_option (\<lambda>r. r\<lparr>last_message_ts := t\<rparr>) (find (is_user g u) (user_xp d))"
proof -
  have "find (is_user g u) (map (\<lambda>r. if is_user g u r then r\<lparr>last_message_ts := t\<rparr> else r) xs)
        = map_option (\<lambda>r. r\<lparr>last_message_ts := t\<rparr>) (find (is_user g u) xs)" for xs
    by (induction xs) auto
  then show ?thesis by (simp add: set_last_message_ts_def)
qed

lemma set_last_tables [simp]:
  "guild_settings (set_last_message_ts d g u t) = guild_settings d"
  "role_rewards (set_last_message_ts d g u t) = role_rewards d"
  "ignored_channels (set_last_message_ts d g u t) = ignored_channels d"
  "blacklisted_roles (set_last_message_ts d g u t) = blacklisted_roles d"
  by (simp_all add: set_last_message_ts_def)

lemma get_settings_set_last [simp]:
  "fst (get_settings (set_last_message_ts d g u t) g') = fst (get_settings d g')"
  by (simp add: get_settings_def split: option.splits)


lemma add_xp_store:
  assumes "add_xp_and_check_level_up fexp D w d gid mem uid gain = Some res"
  shows "guild_settings (store res) = guild_settings (snd (get_settings d gid))"
    and "role_rewards (store res) = role_rewards d"
    and "ignored_channels (store res) = ignored_channels d"
    and "blacklisted_roles (store res) = blacklisted_roles d"
    and "user_xp (store res) =
          map (\<lambda>r. if is_user gid uid r then r\<lparr>xp := new_total res, level := new_level res\<rparr> else r)
            (user_xp d @ (case find (is_user gid uid) (user_xp d) of
                            None \<Rightarrow> [new_user_row gid uid] | Some r \<Rightarrow> []))"
  using assms
  by (auto simp: add_xp_and_check_level_up_def Let_def case_prod_beta
        split: option.splits if_splits)

lemma add_xp_values:
  assumes "add_xp_and_check_level_up fexp D w d gid mem uid gain = Some res"
  shows "new_total res =
           max 0 ((case find (is_user gid uid) (user_xp d) of None \<Rightarrow> 0 | Some r \<Rightarrow> xp r) + gain)"
    and "level_from_total_xp fexp (curve_type (fst (get_settings d gid)))
           (base_xp (fst (get_settings d gid))) (curve_a (fst (get_settings d gid)))
           (curve_b (fst (get_settings d gid))) (new_total res) = Some (new_level res)"
    and "old_level res = (case find (is_user gid uid) (user_xp d) of None \<Rightarrow> 0 | Some r \<Rightarrow> level r)"
    and "(awarded res, attempts res, world res, raised res) =
           (if new_level res > old_level res
            then award_roles D mem uid
                   (reward_rows (store res) gid (old_level res + 1) (new_level res)) w
            else ([], [], w, False))"
  using assms
  by (auto simp: add_xp_and_check_level_up_def Let_def case_prod_beta
        split: option.splits if_splits)

lemma filters_settings [simp]:
  "is_channel_ignored (snd (get_settings d g)) g' c = is_channel_ignored d g' c"
  "list_blacklisted_roles (snd (get_settings d g)) g' = list_blacklisted_roles d g'"
  by (simp_all add: is_channel_ignored_def list_blacklisted_roles_def)

lemma on_message_rejected:
  assumes "guild m = Some gid" "\<not> passes_filters d gid m"
  shows "\<exists>out. on_message fexp fscale randint D w d now m = Some (out, w, snd (get_settings d gid))
           \<and> out \<in> {Bot_Ignored, Channel_Ignored, Role_Blacklisted, Too_Short}"
  using assms
  by (auto simp: on_message_def passes_filters_def Let_def case_prod_beta)

lemma on_message_passed:
  assumes "guild m = Some gid" "passes_filters d gid m"
  shows "on_message fexp fscale randint D w d now m =
    (let s = fst (get_settings d gid); d1 = snd (get_settings d gid) in
     if now - get_last_message_ts d gid (author_id m) < cooldown_seconds s
     then Some (On_Cooldown, w, d1)
     else if xp_max s < xp_min s then Some (Raised_ValueError, w, d1)
     else
       let gain = compute_gain fscale randint s m;
           d2 = set_last_message_ts d1 gid (author_id m) now
       in if gain \<le> 0 then Some (No_Gain, w, d2)
          else
            (case add_xp_and_check_level_up fexp D w d2 gid (author_is_member m)
                    (author_id m) gain of
               None \<Rightarrow> None
             | Some r \<Rightarrow>
                 if raised r then Some (Raised_AttributeError gain r, world r, store r)
                 else Some (Gained gain r (announce fexp D s m r), world r, store r)))"
  using assms
  by (auto simp: on_message_def passes_filters_def Let_def case_prod_beta)

lemma find_append_case:
  "find P (xs @ (case find P xs of None \<Rightarrow> [y] | Some r \<Rightarrow> [])) =
     (case find P xs of None \<Rightarrow> (if P y then Some y else None) | Some r \<Rightarrow> Some r)"
  by (induction xs) auto

lemma find_update_row:
  "find (is_user g u) (map (\<lambda>r. if is_user g u r then r\<lparr>xp := x, level := l\<rparr> else r) xs)
     = map_option (\<lambda>r. r\<lparr>xp := x, level := l\<rparr>) (find (is_user g u) xs)"
  by (induction xs) auto

lemma add_xp_row:
  assumes "add_xp_and_check_level_up fexp D w d gid mem uid gain = Some res"
  shows "find (is_user gid uid) (user_xp (store res)) =
           Some ((case find (is_user gid uid) (user_xp d) of
                    None \<Rightarrow> new_user_row gid uid | Some r \<Rightarrow> r)
                 \<lparr>xp := new_total res, level := new_level res\<rparr>)"
proof -
  have "is_user gid uid (new_user_row gid uid)" by (simp add: is_user_def new_user_row_def)
  then show ?thesis
    by (simp only: add_xp_store(5)[OF assms] find_update_row find_append_case)
      (simp split: option.split)
qed

lemma add_xp_keeps_ts:
  assumes "add_xp_and_check_level_up fexp D w d gid mem uid gain = Some res"
    and "find (is_user gid uid) (user_xp d) = Some r"
  shows "get_last_message_ts (store res) gid uid = last_message_ts r"
  using add_xp_row[OF assms(1)] assms(2) by (simp add: get_last_message_ts_def)

lemma get_last_find:
  "find (is_user g u) (user_xp d) = Some r \<Longrightarrow> get_last_message_ts d g u = last_message_ts r"
  by (simp add: get_last_message_ts_def)

text \<open>
  C2. For a subject with a stored row, a message that arrives strictly inside the
  cooldown window (\<open>now - last_message_ts < cooldown_seconds\<close>) changes nothing in
  \<open>user_xp\<close> (no xp, level or timestamp of any row) and nothing in the world; a
  message that arrives at or after the end of the window is not rejected by the
  cooldown check, and if it passes the filters (and the XP range is not empty) its
  timestamp is stored. \<open>on_message\<close> returns in every case.
\<close>

theorem cooldown_window:
  assumes "guild m = Some gid"
    and "find (is_user gid (author_id m)) (user_xp d) = Some r"
  shows "\<exists>out w' d'. on_message fexp fscale randint D w d now m = Some (out, w', d')
     \<and> (now - last_message_ts r < cooldown_seconds (fst (get_settings d gid))
          \<longrightarrow> user_xp d' = user_xp d \<and> w' = w)
     \<and> (cooldown_seconds (fst (get_settings d gid)) \<le> now - last_message_ts r
          \<longrightarrow> out \<noteq> On_Cooldown
              \<and> (passes_filters d gid m
                   \<and> xp_min (fst (get_settings d gid)) \<le> xp_max (fst (get_settings d gid))
                   \<longrightarrow> get_last_message_ts d' gid (author_id m) = now))"
proof (cases "passes_filters d gid m")
  case False
  from on_message_rejected[OF assms(1) False, of fexp fscale randint D w now]
  show ?thesis using False by auto
next
  case True
  let ?s = "fst (get_settings d gid)"
  let ?d1 = "snd (get_settings d gid)"
  let ?d2 = "set_last_message_ts ?d1 gid (author_id m) now"
  note eq = on_message_passed[OF assms(1) True, of fexp fscale randint D w now]
  have ts: "get_last_message_ts d gid (author_id m) = last_message_ts r"
    using assms(2) by (rule get_last_find)
  have f2: "find (is_user gid (author_id m)) (user_xp ?d2) = Some (r\<lparr>last_message_ts := now\<rparr>)"
    using assms(2) by (simp add: find_set_last)
  show ?thesis
  proof (cases "now - last_message_ts r < cooldown_seconds ?s")
    case True
    then show ?thesis using eq ts by (simp add: Let_def)
  next
    case False
    show ?thesis
    proof (cases "xp_max ?s < xp_min ?s")
      case True
      then show ?thesis using eq ts False by (simp add: Let_def)
    next
      case range: False
      show ?thesis
      proof (cases "compute_gain fscale randint ?s m \<le> 0")
        case True
        then show ?thesis using eq ts False range f2 by (simp add: Let_def get_last_find)
      next
        case gain: False
        obtain res where res: "add_xp_and_check_level_up fexp D w ?d2 gid (author_is_member m)
            (author_id m) (compute_gain fscale randint ?s m) = Some res"
          by (rule exE[OF add_xp_returns])
        have "get_last_message_ts (store res) gid (author_id m) = now"
          using add_xp_keeps_ts[OF res f2] by simp
        then show ?thesis using eq ts False range gain res by (simp add: Let_def)
      qed
    qed
  qed
qed

lemma example_settings [simp]:
  "get_settings (example_store rows) 1 = (DEFAULT_SETTINGS, example_store rows)"
  by (simp add: get_settings_def example_store_def)

lemma example_passes [simp]: "passes_filters (example_store rows) 1 example_message"
  by (simp add: passes_filters_def example_message_def is_channel_ignored_def
        list_blacklisted_roles_def DEFAULT_SETTINGS_def)
    (simp add: example_store_def)

theorem cooldown_window_witness:
  "(\<exists>out w' d'. on_message ideal_fexp ideal_fscale first_of_range example_guild {}
        (example_store [\<lparr>guild_id = 1, user_id = 7, xp = 150, level = 1, last_message_ts = 1000\<rparr>])
        1059 example_message = Some (out, w', d')
      \<and> user_xp d' = [\<lparr>guild_id = 1, user_id = 7, xp = 150, level = 1, last_message_ts = 1000\<rparr>]
      \<and> w' = {})
   \<and> (\<exists>out w' d'. on_message ideal_fexp ideal_fscale first_of_range example_guild {}
        (example_store [\<lparr>guild_id = 1, user_id = 7, xp = 150, level = 1, last_message_ts = 1000\<rparr>])
        1060 example_message = Some (out, w', d')
      \<and> out \<noteq> On_Cooldown \<and> get_last_message_ts d' 1 7 = 1060)"
proof -
  let ?r = "\<lparr>guild_id = 1, user_id = 7, xp = 150, level = 1, last_message_ts = 1000\<rparr>"
  have g: "guild example_message = Some 1" by (simp add: example_message_def)
  have f: "find (is_user 1 (author_id example_message)) (user_xp (example_store [?r])) = Some ?r"
    by (simp add: example_message_def example_store_def is_user_def)
  show ?thesis
    using cooldown_window[OF g f, of ideal_fexp ideal_fscale first_of_range example_guild "{}" 1059]
      cooldown_window[OF g f, of ideal_fexp ideal_fscale first_of_range example_guild "{}" 1060]
    by (simp add: DEFAULT_SETTINGS_def) (simp add: example_message_def example_store_def)
qed

lemma fst_get_settings_cong:
  "guild_settings d' = guild_settings (snd (get_settings d g)) \<Longrightarrow>
     fst (get_settings d' g) = fst (get_settings d g)"
  by (simp add: get_settings_def split: option.splits)

lemma guild_settings_set_last_snd:
  "guild_settings (snd (get_settings (set_last_message_ts d g u t) g')) =
     guild_settings (snd (get_settings d g'))"
  by (simp add: get_settings_def split: option.splits)

lemma on_message_Gained:
  assumes "guild m = Some gid"
    and "on_message fexp fscale randint D w d now m = Some (Gained g r n, w', d')"
  shows "passes_filters d gid m"
    and "cooldown_seconds (fst (get_settings d gid)) \<le> now - get_last_message_ts d gid (author_id m)"
    and "xp_min (fst (get_settings d gid)) \<le> xp_max (fst (get_settings d gid))"
    and "g = compute_gain fscale randint (fst (get_settings d gid)) m" and "0 < g"
    and "add_xp_and_check_level_up fexp D w
           (set_last_message_ts (snd (get_settings d gid)) gid (author_id m) now) gid
           (author_is_member m) (author_id m) g = Some r"
    and "d' = store r" and "w' = world r"
proof -
  show pf: "passes_filters d gid m"
    using on_message_rejected[OF assms(1), of d fexp fscale randint D w now] assms(2) by auto
  note eq = on_message_passed[OF assms(1) pf, of fexp fscale randint D w now]
  show "cooldown_seconds (fst (get_settings d gid)) \<le> now - get_last_message_ts d gid (author_id m)"
    "xp_min (fst (get_settings d gid)) \<le> xp_max (fst (get_settings d gid))"
    "g = compute_gain fscale randint (fst (get_settings d gid)) m" "0 < g"
    "add_xp_and_check_level_up fexp D w
           (set_last_message_ts (snd (get_settings d gid)) gid (author_id m) now) gid
           (author_is_member m) (author_id m) g = Some r"
    "d' = store r" "w' = world r"
    using assms(2) unfolding eq
    by (auto simp: Let_def split: if_splits option.splits)
qed

text \<open>
  C10. For a subject without a stored row, the first accepted message does not store
  its timestamp: \<open>set_last_message_ts\<close> updates no row, and the row that
  \<open>add_xp_and_check_level_up\<close> then inserts has \<open>last_message_ts = 0\<close>. A second
  message of the same subject at the same time or later that passes the filters with a
  positive gain therefore passes the cooldown check as well and adds its gain to the
  stored XP; only then is a timestamp stored.
\<close>

theorem new_subject_timestamp_lost:
  assumes "guild m = Some gid"
    and "find (is_user gid (author_id m)) (user_xp d) = None"
    and "on_message fexp fscale randint D w d now1 m = Some (Gained g r1 n1, w1, d1)"
    and "guild m2 = Some gid" and "author_id m2 = author_id m"
    and "passes_filters d1 gid m2"
    and "0 < compute_gain fscale2 randint2 (fst (get_settings d1 gid)) m2"
    and "now1 \<le> now2"
  shows "find (is_user gid (author_id m)) (user_xp d1)
           = Some \<lparr>guild_id = gid, user_id = author_id m, xp = g, level = new_level r1,
                   last_message_ts = 0\<rparr>
     \<and> (\<exists>out2 w2 d2 r2.
           on_message fexp fscale2 randint2 D w1 d1 now2 m2 = Some (out2, w2, d2)
           \<and> (out2 = Raised_AttributeError (compute_gain fscale2 randint2 (fst (get_settings d1 gid)) m2) r2
               \<or> (\<exists>n2. out2 = Gained (compute_gain fscale2 randint2 (fst (get_settings d1 gid)) m2) r2 n2))
           \<and> find (is_user gid (author_id m)) (user_xp d2)
               = Some \<lparr>guild_id = gid, user_id = author_id m,
                       xp = g + compute_gain fscale2 randint2 (fst (get_settings d1 gid)) m2,
                       level = new_level r2, last_message_ts = now2\<rparr>)"
proof -
  let ?u = "author_id m"
  let ?s = "fst (get_settings d gid)"
  let ?da = "set_last_message_ts (snd (get_settings d gid)) gid ?u now1"
  note G = on_message_Gained[OF assms(1) assms(3)]
  have last0: "get_last_message_ts d gid ?u = 0"
    using assms(2) by (simp add: get_last_message_ts_def)
  have noa: "find (is_user gid ?u) (user_xp ?da) = None"
    using assms(2) by (simp add: find_set_last)
  have tot1: "new_total r1 = g"
    using add_xp_values(1)[OF G(6)] noa G(5) by simp
  have row1: "find (is_user gid ?u) (user_xp d1)
                = Some \<lparr>guild_id = gid, user_id = ?u, xp = g, level = new_level r1,
                        last_message_ts = 0\<rparr>"
    using add_xp_row[OF G(6)] noa tot1 G(7) by (simp add: new_user_row_def)
  have s1: "fst (get_settings d1 gid) = ?s"
  proof -
    have "guild_settings d1 = guild_settings (snd (get_settings d gid))"
      using add_xp_store(1)[OF G(6)] G(7) by (simp add: guild_settings_set_last_snd)
    then show ?thesis by (rule fst_get_settings_cong)
  qed
  let ?g2 = "compute_gain fscale2 randint2 (fst (get_settings d1 gid)) m2"
  let ?db = "set_last_message_ts (snd (get_settings d1 gid)) gid ?u now2"
  have last1: "get_last_message_ts d1 gid ?u = 0" using row1 by (simp add: get_last_message_ts_def)
  have cool: "\<not> now2 - get_last_message_ts d1 gid (author_id m2) < cooldown_seconds (fst (get_settings d1 gid))"
    using G(2) last0 last1 assms(5) assms(8) s1 by simp
  obtain r2 where r2: "add_xp_and_check_level_up fexp D w1 ?db gid (author_is_member m2) ?u ?g2 = Some r2"
    by (rule exE[OF add_xp_returns])
  have rowb: "find (is_user gid ?u) (user_xp ?db)
      = Some \<lparr>guild_id = gid, user_id = ?u, xp = g, level = new_level r1, last_message_ts = now2\<rparr>"
    using row1 by (simp add: find_set_last)
  have tot2: "new_total r2 = g + ?g2"
    using add_xp_values(1)[OF r2] rowb G(5) assms(7) by simp
  have row2: "find (is_user gid ?u) (user_xp (store r2))
      = Some \<lparr>guild_id = gid, user_id = ?u, xp = g + ?g2, level = new_level r2, last_message_ts = now2\<rparr>"
    using add_xp_row[OF r2] rowb tot2 by simp
  have "on_message fexp fscale2 randint2 D w1 d1 now2 m2 =
      (if raised r2 then Some (Raised_AttributeError ?g2 r2, world r2, store r2)
       else Some (Gained ?g2 r2 (announce fexp D (fst (get_settings d1 gid)) m2 r2), world r2, store r2))"
    unfolding on_message_passed[OF assms(4) assms(6)]
    using cool G(3) s1 assms(7) r2 assms(5) by (simp add: Let_def)
  then show ?thesis using row1 row2 by auto
qed

lemma example_message_fields [simp]:
  "guild example_message = Some 1" "author_id example_message = 7"
  "author_is_member example_message" "\<not> author_bot example_message"
  "channel_id example_message = 3" "\<not> channel_is_thread example_message"
  "attachments example_message = 0" "mentions example_message = 0"
  by (simp_all add: example_message_def)

lemma default_fields [simp]:
  "cooldown_seconds DEFAULT_SETTINGS = 60" "xp_min DEFAULT_SETTINGS = 10"
  "xp_max DEFAULT_SETTINGS = 20" "multiplier DEFAULT_SETTINGS = 1"
  "attachments_bonus DEFAULT_SETTINGS = 5" "mentions_bonus DEFAULT_SETTINGS = 2"
  "announce_level_up DEFAULT_SETTINGS = 1" "announce_channel_id DEFAULT_SETTINGS = None"
  "curve_type DEFAULT_SETTINGS = ''quadratic''" "base_xp DEFAULT_SETTINGS = 100"
  "curve_a DEFAULT_SETTINGS = 50" "curve_b DEFAULT_SETTINGS = 0"
  by (simp_all add: DEFAULT_SETTINGS_def)

lemma example_store_fields [simp]:
  "user_xp (example_store rows) = rows"
  "(example_store rows)\<lparr>user_xp := rows'\<rparr> = example_store rows'"
  "role_rewards (example_store rows) =
     [\<lparr>rr_guild_id = 1, rr_level = 5, rr_role_id = 55\<rparr>,
      \<lparr>rr_guild_id = 1, rr_level = 4, rr_role_id = 44\<rparr>,
      \<lparr>rr_guild_id = 1, rr_level = 6, rr_role_id = 66\<rparr>]"
  by (simp_all add: example_store_def)

lemma example_gain [simp]:
  "compute_gain ideal_fscale first_of_range DEFAULT_SETTINGS (example_message\<lparr>author_id := u\<rparr>) = 10"
  "compute_gain ideal_fscale first_of_range DEFAULT_SETTINGS example_message = 10"
  by (simp_all add: compute_gain_def ideal_fscale_def first_of_range_def)

lemma example_levels:
  "level_from_total_xp fexp ''quadratic'' 100 50 0 10 = Some 0"
  "level_from_total_xp fexp ''quadratic'' 100 50 0 20 = Some 0"
  "level_from_total_xp fexp ''quadratic'' 100 50 0 160 = Some 1"
  by (simp_all add: level_from_total_xp_def ramp.simps xp_required_for_level_def
        lower_quadratic Let_def)

lemma example_passes_any [simp]:
  "passes_filters (example_store rows) 1 (example_message\<lparr>author_id := u\<rparr>)"
  by (simp add: passes_filters_def example_message_def is_channel_ignored_def
        list_blacklisted_roles_def DEFAULT_SETTINGS_def)
    (simp add: example_store_def)

text \<open>
  C4, at an input where the code does not do what the claim says. User 8 has no row;
  the message passes the filters and the cooldown check at time 5000 and gains 10 XP.
  The row stored afterwards has \<open>last_message_ts = 0\<close>, not 5000.
\<close>

theorem first_message_timestamp_not_stored:
  "on_message ideal_fexp ideal_fscale first_of_range example_guild {} (example_store [])
      5000 (example_message\<lparr>author_id := 8\<rparr>)
   = Some (Gained 10
             \<lparr>new_total = 10, new_level = 0, awarded = [], attempts = [], old_level = 0,
              raised = False, world = {},
              store = example_store
                [\<lparr>guild_id = 1, user_id = 8, xp = 10, level = 0, last_message_ts = 0\<rparr>]\<rparr>
             None,
           {},
           example_store [\<lparr>guild_id = 1, user_id = 8, xp = 10, level = 0, last_message_ts = 0\<rparr>])"
proof -
  have g: "guild (example_message\<lparr>author_id := 8\<rparr>) = Some 1" by simp
  have a: "add_xp_and_check_level_up ideal_fexp example_guild {}
             (set_last_message_ts (example_store []) 1 8 5000) 1 True 8 10
        = Some \<lparr>new_total = 10, new_level = 0, awarded = [], attempts = [], old_level = 0,
              raised = False, world = {},
              store = example_store
                [\<lparr>guild_id = 1, user_id = 8, xp = 10, level = 0, last_message_ts = 0\<rparr>]\<rparr>"
    by (simp add: add_xp_and_check_level_up_def set_last_message_ts_def
          example_levels Let_def new_user_row_def is_user_def)
  show ?thesis
    unfolding on_message_passed[OF g example_passes_any]
    by (simp add: Let_def a get_last_message_ts_def announce_def)
qed

theorem new_subject_timestamp_lost_witness:
  "find (is_user 1 7)
     (user_xp (example_store [\<lparr>guild_id = 1, user_id = 7, xp = 10, level = 0, last_message_ts = 0\<rparr>]))
     = Some \<lparr>guild_id = 1, user_id = 7, xp = 10, level = 0, last_message_ts = 0\<rparr>
   \<and> (\<exists>out2 w2 d2 r2.
         on_message ideal_fexp ideal_fscale first_of_range example_guild {}
           (example_store [\<lparr>guild_id = 1, user_id = 7, xp = 10, level = 0, last_message_ts = 0\<rparr>])
           1000 example_message = Some (out2, w2, d2)
         \<and> (out2 = Raised_AttributeError 10 r2 \<or> (\<exists>n2. out2 = Gained 10 r2 n2))
         \<and> find (is_user 1 7) (user_xp d2)
             = Some \<lparr>guild_id = 1, user_id = 7, xp = 20, level = new_level r2,
                     last_message_ts = 1000\<rparr>)"
proof -
  let ?row = "\<lparr>guild_id = 1, user_id = 7, xp = 10, level = 0, last_message_ts = 0\<rparr>"
  let ?r1 = "\<lparr>new_total = 10, new_level = 0, awarded = [], attempts = [], old_level = 0,
              raised = False, world = {}, store = example_store [?row]\<rparr>"
  have a: "add_xp_and_check_level_up ideal_fexp example_guild {}
             (set_last_message_ts (example_store []) 1 7 1000) 1 True 7 10 = Some ?r1"
    by (simp add: add_xp_and_check_level_up_def set_last_message_ts_def
          example_levels Let_def new_user_row_def is_user_def)
  have first: "on_message ideal_fexp ideal_fscale first_of_range example_guild {}
      (example_store []) 1000 example_message = Some (Gained 10 ?r1 None, {}, example_store [?row])"
    unfolding on_message_passed[OF example_message_fields(1) example_passes]
    by (simp add: Let_def a get_last_message_ts_def announce_def)
  have none: "find (is_user 1 (author_id example_message)) (user_xp (example_store [])) = None"
    by simp
  have pos: "0 < compute_gain ideal_fscale first_of_range
               (fst (get_settings (example_store [?row]) 1)) example_message"
    by simp
  show ?thesis
    using new_subject_timestamp_lost[OF example_message_fields(1) none first
        example_message_fields(1) refl example_passes pos order_refl]
    by simp
qed

text \<open>
  C1, at an input where the code does not do what the claim says. User 7 is at level 1
  with 150 XP; the message gains 10 XP and the level stays 1 (\<open>old_level = new_level\<close>),
  yet a level-up notification is sent: the source announces whenever the new level is
  positive or a role was awarded.
\<close>

theorem announcement_without_level_change:
  "on_message ideal_fexp ideal_fscale first_of_range example_guild {}
      (example_store [\<lparr>guild_id = 1, user_id = 7, xp = 150, level = 1, last_message_ts = 0\<rparr>])
      1000 example_message
   = Some (Gained 10
             \<lparr>new_total = 160, new_level = 1, awarded = [], attempts = [], old_level = 1,
              raised = False, world = {},
              store = example_store
                [\<lparr>guild_id = 1, user_id = 7, xp = 160, level = 1, last_message_ts = 1000\<rparr>]\<rparr>
             (Some \<lparr>sent_to = 3, reached_level = 1, progress = 10, need_to_next = 350,
                    reward_lines = []\<rparr>),
           {},
           example_store
             [\<lparr>guild_id = 1, user_id = 7, xp = 160, level = 1, last_message_ts = 1000\<rparr>])"
proof -
  have a: "add_xp_and_check_level_up ideal_fexp example_guild {}
             (set_last_message_ts
                (example_store [\<lparr>guild_id = 1, user_id = 7, xp = 150, level = 1, last_message_ts = 0\<rparr>])
                1 7 1000) 1 True 7 10
        = Some \<lparr>new_total = 160, new_level = 1, awarded = [], attempts = [], old_level = 1,
              raised = False, world = {},
              store = example_store
                [\<lparr>guild_id = 1, user_id = 7, xp = 160, level = 1, last_message_ts = 1000\<rparr>]\<rparr>"
    by (simp add: add_xp_and_check_level_up_def set_last_message_ts_def
          example_levels Let_def is_user_def)
  have req: "xp_required_for_level ideal_fexp ''quadratic'' 100 50 0 1 = 150"
    "xp_required_for_level ideal_fexp ''quadratic'' 100 50 0 2 = 500"
    by (simp_all add: xp_required_quadratic)
  show ?thesis
    unfolding on_message_passed[OF example_message_fields(1) example_passes]
    by (simp add: Let_def a get_last_message_ts_def is_user_def announce_def
          xp_between_levels_def req)
qed

section \<open>The reward loop\<close>

lemma award_roles_member:
  "award_roles D True uid rows w = (aw, tried, w', exc) \<Longrightarrow>
     map fst tried = map rr_level rows \<and> \<not> exc \<and> Attribute_Error \<notin> snd ` set tried"
proof (induction rows arbitrary: w aw tried w' exc)
  case Nil
  then show ?case by simp
next
  case (Cons rr rows)
  obtain res1 w1 where ar: "add_roles D w uid (rr_role_id rr) = (res1, w1)"
    by (cases "add_roles D w uid (rr_role_id rr)")
  obtain aw0 tr0 w0 e0 where r0: "award_roles D True uid rows w = (aw0, tr0, w0, e0)"
    by (metis prod_cases4)
  obtain aw1 tr1 w1' e1 where r1: "award_roles D True uid rows w1 = (aw1, tr1, w1', e1)"
    by (metis prod_cases4)
  note ih0 = Cons.IH[OF r0] and ih1 = Cons.IH[OF r1]
  show ?case
    using Cons.prems ar r0 r1 ih0 ih1
    by (cases res1) (auto simp: Let_def split: if_splits)
qed







section \<open>The leaderboard\<close>

lemma distinct_user_ids:
  assumes "distinct (map (\<lambda>r. (guild_id r, user_id r)) xs)"
  shows "distinct (map user_id (filter (\<lambda>r. guild_id r = gid \<and> P r) xs))"
proof -
  let ?ys = "filter (\<lambda>r. guild_id r = gid \<and> P r) xs"
  have dx: "distinct xs" and inj: "inj_on (\<lambda>r. (guild_id r, user_id r)) (set xs)"
    using assms by (simp_all add: distinct_map)
  have "inj_on user_id (set ?ys)"
  proof (rule inj_onI)
    fix a b assume "a \<in> set ?ys" "b \<in> set ?ys" "user_id a = user_id b"
    then have "a \<in> set xs" "b \<in> set xs" "(guild_id a, user_id a) = (guild_id b, user_id b)"
      by auto
    then show "a = b" using inj by (auto dest: inj_onD)
  qed
  moreover have "distinct ?ys" using dx by simp
  ultimately show ?thesis by (simp add: distinct_map)
qed

lemma user_rank_count:
  assumes "distinct (map (\<lambda>r. (guild_id r, user_id r)) xs)"
  shows "length (filter (\<lambda>r. guild_id r = gid \<and> P r) xs)
       = card {u. \<exists>r \<in> set xs. guild_id r = gid \<and> user_id r = u \<and> P r}"
proof -
  let ?S = "{r \<in> set xs. guild_id r = gid \<and> P r}"
  have dx: "distinct xs" using assms by (rule distinct_map[THEN iffD1, THEN conjunct1])
  have inj: "inj_on (\<lambda>r. (guild_id r, user_id r)) (set xs)"
    using assms by (simp add: distinct_map)
  have "inj_on user_id ?S"
  proof (rule inj_onI)
    fix a b assume "a \<in> ?S" "b \<in> ?S" "user_id a = user_id b"
    then have "(guild_id a, user_id a) = (guild_id b, user_id b)" "a \<in> set xs" "b \<in> set xs"
      by auto
    then show "a = b" using inj by (auto dest: inj_onD)
  qed
  then have "card (user_id ` ?S) = card ?S" by (rule card_image)
  moreover have "user_id ` ?S = {u. \<exists>r \<in> set xs. guild_id r = gid \<and> user_id r = u \<and> P r}"
    by auto
  moreover have "length (filter (\<lambda>r. guild_id r = gid \<and> P r) xs) = card ?S"
  proof -
    have "?S = {x. guild_id x = gid \<and> P x} \<inter> set xs" by auto
    then show ?thesis using distinct_length_filter[OF dx, of "\<lambda>r. guild_id r = gid \<and> P r"] by simp
  qed
  ultimately show ?thesis by simp
qed

lemma top_order:
  "sorted_wrt (\<lambda>r q. xp q < xp r \<or> (xp r = xp q \<and> user_id r \<le> user_id q))
     (sort_key (\<lambda>r. (- xp r, user_id r)) xs)"
proof -
  have "sorted (map (\<lambda>r. (- xp r, user_id r)) (sort_key (\<lambda>r. (- xp r, user_id r)) xs))"
    by (rule sorted_sort_key)
  then have "sorted_wrt (\<lambda>r q. (- xp r, user_id r) \<le> (- xp q, user_id q))
      (sort_key (\<lambda>r. (- xp r, user_id r)) xs)"
    by (simp add: sorted_map)
  then show ?thesis
    by (rule sorted_wrt_mono_rel[rotated]) (auto simp: less_eq_prod_def)
qed

lemma sorted_wrt_distinct_key:
  "sorted_wrt R xs \<Longrightarrow> distinct (map f xs) \<Longrightarrow> sorted_wrt (\<lambda>x y. R x y \<and> f x \<noteq> f y) xs"
  by (induction xs) auto

lemma board_order:
  assumes "distinct (map (\<lambda>r. (guild_id r, user_id r)) xs)"
  shows "sorted_wrt (\<lambda>r q. xp q < xp r \<or> (xp r = xp q \<and> user_id r < user_id q))
     (sort_key (\<lambda>r. (- xp r, user_id r)) (filter (\<lambda>r. guild_id r = gid) xs))"
proof -
  let ?g = "filter (\<lambda>r. guild_id r = gid) xs"
  let ?all = "sort_key (\<lambda>r. (- xp r, user_id r)) ?g"
  have "distinct (map user_id ?g)"
    using distinct_user_ids[OF assms, of gid "\<lambda>r. True"] by simp
  moreover have "mset (map user_id ?all) = mset (map user_id ?g)" by simp
  ultimately have "distinct (map user_id ?all)" by (metis mset_eq_imp_distinct_iff)
  from sorted_wrt_distinct_key[OF top_order this]
  show ?thesis by (rule sorted_wrt_mono_rel[rotated]) auto
qed

text \<open>
  C8. The rank of a stored subject is 1 plus the number of subjects of the guild with
  strictly more XP (so subjects with equal XP have equal rank). The whole board
  \<open>top_users d gid (- 1) 0\<close> holds each row of the guild once, by XP descending and,
  among equal XP, by user id strictly ascending; and \<open>top_users d gid limit offset\<close>
  is that board without its first \<open>offset\<close> rows, cut to \<open>limit\<close> rows when the limit
  is not negative. The primary key of \<open>user_xp\<close> makes one row per subject.
\<close>

theorem leaderboard_rank_and_order:
  assumes "distinct (map (\<lambda>r. (guild_id r, user_id r)) (user_xp d))"
    and "find (is_user gid uid) (user_xp d) = Some me"
  shows "user_rank d gid uid
           = 1 + int (card {u. \<exists>r \<in> set (user_xp d). guild_id r = gid \<and> user_id r = u \<and> xp me < xp r})
     \<and> mset (top_users d gid (- 1) 0) = mset (filter (\<lambda>r. guild_id r = gid) (user_xp d))
     \<and> sorted_wrt (\<lambda>r q. xp q < xp r \<or> (xp r = xp q \<and> user_id r < user_id q))
           (top_users d gid (- 1) 0)
     \<and> top_users d gid limit offset
         = (if limit < 0 then drop (nat offset) (top_users d gid (- 1) 0)
            else take (nat limit) (drop (nat offset) (top_users d gid (- 1) 0)))"
proof -
  let ?all = "sort_key (\<lambda>r. (- xp r, user_id r)) (filter (\<lambda>r. guild_id r = gid) (user_xp d))"
  have rank: "user_rank d gid uid
           = 1 + int (card {u. \<exists>r \<in> set (user_xp d). guild_id r = gid \<and> user_id r = u \<and> xp me < xp r})"
  proof -
    have "user_rank d gid uid
        = int (length (filter (\<lambda>r. guild_id r = gid \<and> xp me < xp r) (user_xp d))) + 1"
      using assms(2) by (simp add: user_rank_def)
    then show ?thesis
      by (simp only: user_rank_count[OF assms(1), of gid "\<lambda>r. xp me < xp r"] add.commute)
  qed
  have board: "top_users d gid (- 1) 0 = ?all"
    by (simp add: top_users_def Let_def)
  have page: "top_users d gid limit offset =
      (if limit < 0 then drop (nat offset) ?all else take (nat limit) (drop (nat offset) ?all))"
    by (simp add: top_users_def Let_def)
  have all: "mset ?all = mset (filter (\<lambda>r. guild_id r = gid) (user_xp d))" by simp
  have ord: "sorted_wrt (\<lambda>r q. xp q < xp r \<or> (xp r = xp q \<and> user_id r < user_id q)) ?all"
    by (rule board_order[OF assms(1)])
  show ?thesis unfolding board using rank all ord page by (intro conjI)
qed

theorem leaderboard_rank_and_order_witness:
  "user_rank tie_store 1 1 = 1 \<and> user_rank tie_store 1 2 = 1 \<and> user_rank tie_store 1 3 = 3
   \<and> user_rank tie_store 1 3
       = 1 + int (card {u. \<exists>r \<in> set (user_xp tie_store). guild_id r = 1 \<and> user_id r = u \<and> 100 < xp r})
   \<and> map user_id (top_users tie_store 1 (- 1) 0) = [1, 2, 3]
   \<and> map user_id (top_users tie_store 1 2 0) = [1, 2]
   \<and> map user_id (top_users tie_store 1 2 1) = [2, 3]
   \<and> top_users tie_store 1 2 1 = take 2 (drop 1 (top_users tie_store 1 (- 1) 0))
   \<and> mset (top_users tie_store 1 (- 1) 0) = mset (filter (\<lambda>r. guild_id r = 1) (user_xp tie_store))
   \<and> sorted_wrt (\<lambda>r q. xp q < xp r \<or> (xp r = xp q \<and> user_id r < user_id q))
         (top_users tie_store 1 (- 1) 0)"
proof -
  have d: "distinct (map (\<lambda>r. (guild_id r, user_id r)) (user_xp tie_store))"
    by (simp add: tie_store_def)
  have f: "find (is_user 1 3) (user_xp tie_store)
             = Some \<lparr>guild_id = 1, user_id = 3, xp = 100, level = 0, last_message_ts = 0\<rparr>"
    by (simp add: tie_store_def is_user_def)
  have vals: "user_rank tie_store 1 1 = 1" "user_rank tie_store 1 2 = 1" "user_rank tie_store 1 3 = 3"
    by (simp_all add: user_rank_def tie_store_def is_user_def Let_def)
  have tops: "map user_id (top_users tie_store 1 (- 1) 0) = [1, 2, 3]"
    "map user_id (top_users tie_store 1 2 0) = [1, 2]"
    "map user_id (top_users tie_store 1 2 1) = [2, 3]"
    by (simp_all add: top_users_def tie_store_def Let_def less_eq_prod_def)
  note th = leaderboard_rank_and_order[OF d f, of 2 1]
  have pg: "top_users tie_store 1 2 1 = take 2 (drop 1 (top_users tie_store 1 (- 1) 0))"
    using th by simp
  have r3: "user_rank tie_store 1 3
       = 1 + int (card {u. \<exists>r \<in> set (user_xp tie_store). guild_id r = 1 \<and> user_id r = u \<and> 100 < xp r})"
    using th by simp
  have ms: "mset (top_users tie_store 1 (- 1) 0) = mset (filter (\<lambda>r. guild_id r = 1) (user_xp tie_store))"
    using th by (rule conjunct2[THEN conjunct1])
  have so: "sorted_wrt (\<lambda>r q. xp q < xp r \<or> (xp r = xp q \<and> user_id r < user_id q))
         (top_users tie_store 1 (- 1) 0)"
    using th by (rule conjunct2[THEN conjunct2, THEN conjunct1])
  show ?thesis by (intro conjI) (rule vals tops pg r3 ms so)+
qed

section \<open>Recalculation\<close>

lemma key_unique:
  assumes "distinct (map (\<lambda>r. (guild_id r, user_id r)) xs)"
    and "r \<in> set xs" "q \<in> set xs" "guild_id q = guild_id r" "user_id q = user_id r"
  shows "q = r"
proof -
  have "inj_on (\<lambda>r. (guild_id r, user_id r)) (set xs)" using assms(1) by (simp add: distinct_map)
  then show ?thesis using assms(2-5) by (auto dest: inj_onD)
qed

lemma find_key:
  assumes "distinct (map (\<lambda>r. (guild_id r, user_id r)) xs)" and "r \<in> set xs"
  shows "find (is_user (guild_id r) (user_id r)) xs = Some r"
proof -
  have "\<exists>q. find (is_user (guild_id r) (user_id r)) xs = Some q"
    using assms(2) by (cases "find (is_user (guild_id r) (user_id r)) xs")
      (auto simp: find_None_iff is_user_def)
  then obtain q where q: "find (is_user (guild_id r) (user_id r)) xs = Some q" ..
  then have "q \<in> set xs" "guild_id q = guild_id r" "user_id q = user_id r"
    by (auto simp: find_Some_iff is_user_def)
  then have "q = r" using key_unique[OF assms] by simp
  then show ?thesis using q by simp
qed

lemma update_is_relevel:
  assumes "distinct (map (\<lambda>r. (guild_id r, user_id r)) xs)" and "r \<in> set xs"
  shows "map (\<lambda>q. if is_user (guild_id r) (user_id r) q then q\<lparr>xp := xp r, level := l\<rparr> else q) xs
           = map (\<lambda>q. if q = r then r\<lparr>level := l\<rparr> else q) xs"
    and "map (\<lambda>q. if is_user (guild_id r) (user_id r) q then q\<lparr>level := l\<rparr> else q) xs
           = map (\<lambda>q. if q = r then r\<lparr>level := l\<rparr> else q) xs"
proof -
  have eq: "is_user (guild_id r) (user_id r) q \<longleftrightarrow> q = r" if "q \<in> set xs" for q
    using key_unique[OF assms that] by (auto simp: is_user_def)
  show "map (\<lambda>q. if is_user (guild_id r) (user_id r) q then q\<lparr>xp := xp r, level := l\<rparr> else q) xs
           = map (\<lambda>q. if q = r then r\<lparr>level := l\<rparr> else q) xs"
    by (rule map_cong[OF refl]) (simp add: eq)
  show "map (\<lambda>q. if is_user (guild_id r) (user_id r) q then q\<lparr>level := l\<rparr> else q) xs
           = map (\<lambda>q. if q = r then r\<lparr>level := l\<rparr> else q) xs"
    by (rule map_cong[OF refl]) (simp add: eq)
qed

lemma relevel_strip:
  "map (\<lambda>r. (guild_id r, user_id r, xp r, last_message_ts r))
     (map (\<lambda>q. if q = r then r\<lparr>level := l\<rparr> else q) xs)
   = map (\<lambda>r. (guild_id r, user_id r, xp r, last_message_ts r)) xs"
  by (induction xs) auto

lemma strip_keys:
  assumes "map (\<lambda>r. (guild_id r, user_id r, xp r, last_message_ts r)) ys
         = map (\<lambda>r. (guild_id r, user_id r, xp r, last_message_ts r)) xs"
  shows "map (\<lambda>r. (guild_id r, user_id r)) ys = map (\<lambda>r. (guild_id r, user_id r)) xs"
  using arg_cong[OF assms, of "map (\<lambda>(g, u, x, t). (g, u))"] by (simp add: comp_def)

lemma relevel_set:
  "q \<in> set (map (\<lambda>q. if q = r then r\<lparr>level := l\<rparr> else q) xs)
     \<longleftrightarrow> (q \<in> set xs \<and> q \<noteq> r) \<or> (r \<in> set xs \<and> q = r\<lparr>level := l\<rparr>)"
  by (induction xs) auto

lemma get_settings_Some:
  "guild_settings d gid = Some s \<Longrightarrow> get_settings d gid = (s, d)"
  by (simp add: get_settings_def)

lemma add_xp_zero_member:
  assumes gs: "guild_settings d gid = Some s"
    and dk: "distinct (map (\<lambda>r. (guild_id r, user_id r)) (user_xp d))"
    and r: "r \<in> set (user_xp d)" "guild_id r = gid" "0 \<le> xp r"
    and res: "add_xp_and_check_level_up fexp D w d gid True (user_id r) 0 = Some res"
  shows "user_xp (store res) = map (\<lambda>q. if q = r then r\<lparr>level := new_level res\<rparr> else q) (user_xp d)"
    and "level_from_total_xp fexp (curve_type s) (base_xp s) (curve_a s) (curve_b s) (xp r)
           = Some (new_level res)"
    and "old_level res = level r"
    and "guild_settings (store res) = guild_settings d"
    and "(awarded res, attempts res, world res, raised res) =
           (if new_level res > level r
            then award_roles D True (user_id r)
                   (reward_rows (store res) gid (level r + 1) (new_level res)) w
            else ([], [], w, False))"
proof -
  have f: "find (is_user gid (user_id r)) (user_xp d) = Some r"
    using find_key[OF dk r(1)] r(2) by simp
  have tot: "new_total res = xp r" using add_xp_values(1)[OF res] f r(3) by simp
  show "level_from_total_xp fexp (curve_type s) (base_xp s) (curve_a s) (curve_b s) (xp r)
           = Some (new_level res)"
    using add_xp_values(2)[OF res] tot by (simp add: get_settings_Some[OF gs])
  show ol: "old_level res = level r" using add_xp_values(3)[OF res] f by simp
  show "guild_settings (store res) = guild_settings d"
    using add_xp_store(1)[OF res] by (simp add: get_settings_Some[OF gs])
  show "user_xp (store res) = map (\<lambda>q. if q = r then r\<lparr>level := new_level res\<rparr> else q) (user_xp d)"
  proof -
    have "user_xp (store res)
        = map (\<lambda>q. if is_user gid (user_id r) q
                     then q\<lparr>xp := new_total res, level := new_level res\<rparr> else q) (user_xp d)"
      using add_xp_store(5)[OF res] f by simp
    also have "\<dots> = map (\<lambda>q. if is_user (guild_id r) (user_id r) q
                     then q\<lparr>xp := xp r, level := new_level res\<rparr> else q) (user_xp d)"
      by (simp only: tot r(2))
    also have "\<dots> = map (\<lambda>q. if q = r then r\<lparr>level := new_level res\<rparr> else q) (user_xp d)"
      by (rule update_is_relevel(1)[OF dk r(1)])
    finally show ?thesis .
  qed
  show "(awarded res, attempts res, world res, raised res) =
           (if new_level res > level r
            then award_roles D True (user_id r)
                   (reward_rows (store res) gid (level r + 1) (new_level res)) w
            else ([], [], w, False))"
    using add_xp_values(4)[OF res] ol by simp
qed

lemma recalc_post_Nil: "recalc_post lev gid xs xs []"
  by (simp add: recalc_post_def)

lemma recalc_post_keys:
  "recalc_post lev gid xs ys rows \<Longrightarrow>
     map (\<lambda>r. (guild_id r, user_id r)) ys = map (\<lambda>r. (guild_id r, user_id r)) xs"
  by (rule strip_keys) (simp add: recalc_post_def)

lemma recalc_post_step:
  assumes dk: "distinct (map (\<lambda>r. (guild_id r, user_id r)) xs)"
    and r: "r \<in> set xs" "guild_id r = gid" "lev (xp r) = Some l"
    and fresh: "user_id r \<notin> user_id ` set rows"
    and post: "recalc_post lev gid (map (\<lambda>q. if q = r then r\<lparr>level := l\<rparr> else q) xs) zs rows"
  shows "recalc_post lev gid xs zs (r # rows)"
proof -
  let ?ys = "map (\<lambda>q. if q = r then r\<lparr>level := l\<rparr> else q) xs"
  let ?strip = "\<lambda>r. (guild_id r, user_id r, xp r, last_message_ts r)"
  have p1: "map ?strip zs = map ?strip ?ys"
    and p2: "\<And>q. q \<in> set zs \<Longrightarrow>
           (q \<in> set ?ys \<and> \<not> (guild_id q = gid \<and> user_id q \<in> user_id ` set rows))
           \<or> (guild_id q = gid \<and> user_id q \<in> user_id ` set rows \<and> lev (xp q) = Some (level q))"
    and p3: "\<And>q. q \<in> set ?ys \<Longrightarrow> \<not> (guild_id q = gid \<and> user_id q \<in> user_id ` set rows)
           \<Longrightarrow> q \<in> set zs"
    using post unfolding recalc_post_def by blast+
  have c1: "map ?strip zs = map ?strip xs" using p1 by (simp only: relevel_strip)
  have c2: "(q \<in> set xs \<and> \<not> (guild_id q = gid \<and> user_id q \<in> user_id ` set (r # rows)))
           \<or> (guild_id q = gid \<and> user_id q \<in> user_id ` set (r # rows) \<and> lev (xp q) = Some (level q))"
    if q: "q \<in> set zs" for q
  proof -
    from p2[OF q] show ?thesis
    proof
      assume a: "q \<in> set ?ys \<and> \<not> (guild_id q = gid \<and> user_id q \<in> user_id ` set rows)"
      then have "(q \<in> set xs \<and> q \<noteq> r) \<or> (r \<in> set xs \<and> q = r\<lparr>level := l\<rparr>)"
        by (simp only: relevel_set)
      then show ?thesis
      proof
        assume b: "q \<in> set xs \<and> q \<noteq> r"
        have "\<not> (guild_id q = gid \<and> user_id q = user_id r)"
          using key_unique[OF dk r(1), of q] b r(2) by auto
        then show ?thesis using a b by auto
      next
        assume "r \<in> set xs \<and> q = r\<lparr>level := l\<rparr>"
        then show ?thesis using r by simp
      qed
    next
      assume "guild_id q = gid \<and> user_id q \<in> user_id ` set rows \<and> lev (xp q) = Some (level q)"
      then show ?thesis by simp
    qed
  qed
  have c3: "q \<in> set zs"
    if q: "q \<in> set xs" "\<not> (guild_id q = gid \<and> user_id q \<in> user_id ` set (r # rows))" for q
  proof -
    have "q \<noteq> r" using q(2) r(2) by auto
    then have "q \<in> set ?ys" using q(1) by (simp only: relevel_set) simp
    moreover have "\<not> (guild_id q = gid \<and> user_id q \<in> user_id ` set rows)" using q(2) by auto
    ultimately show ?thesis by (rule p3)
  qed
  show ?thesis unfolding recalc_post_def using c1 c2 c3 by blast
qed

lemma relevel_same: "map (\<lambda>q. if q = r then r\<lparr>level := level r\<rparr> else q) xs = xs"
  by (induction xs) auto

lemma reward_rows_levels:
  "rr \<in> set (reward_rows d gid lo hi) \<Longrightarrow> lo \<le> rr_level rr \<and> rr_level rr \<le> hi"
  by (simp add: reward_rows_def)

lemma relevel_keys:
  "map (\<lambda>r. (guild_id r, user_id r)) (map (\<lambda>q. if q = r then r\<lparr>level := l\<rparr> else q) xs)
     = map (\<lambda>r. (guild_id r, user_id r)) xs"
  by (induction xs) auto

lemma rest_in_relevel:
  assumes "set (r # rows) \<subseteq> set xs" "distinct (map user_id (r # rows))"
  shows "set rows \<subseteq> set (map (\<lambda>q. if q = r then r\<lparr>level := l\<rparr> else q) xs)"
proof
  fix q assume q: "q \<in> set rows"
  then have "user_id q \<in> set (map user_id rows)" by simp
  moreover have "user_id r \<notin> set (map user_id rows)" using assms(2) by simp
  ultimately have "q \<noteq> r" by auto
  moreover have "q \<in> set xs" using q assms(1) by auto
  ultimately show "q \<in> set (map (\<lambda>q. if q = r then r\<lparr>level := l\<rparr> else q) xs)"
    by (simp only: relevel_set) simp
qed

lemma recalc_others_post:
  assumes "distinct (map (\<lambda>r. (guild_id r, user_id r)) (user_xp d))"
    and "set rows \<subseteq> set (user_xp d)" "distinct (map user_id rows)"
    and "\<forall>r \<in> set rows. guild_id r = gid"
  shows "\<exists>c d'. recalc_others fexp s gid rows d c0 = Some (c, d')
     \<and> guild_settings d' = guild_settings d
     \<and> recalc_post (level_from_total_xp fexp (curve_type s) (base_xp s) (curve_a s) (curve_b s))
          gid (user_xp d) (user_xp d') rows"
  using assms
proof (induction rows arbitrary: d c0)
  case Nil
  then show ?case by (simp add: recalc_post_Nil)
next
  case (Cons r rows)
  let ?lev = "level_from_total_xp fexp (curve_type s) (base_xp s) (curve_a s) (curve_b s)"
  obtain lvl where lvl: "?lev (xp r) = Some lvl"
    using level_from_total_xp_returns by blast
  let ?ys = "map (\<lambda>q. if q = r then r\<lparr>level := lvl\<rparr> else q) (user_xp d)"
  let ?c = "if lvl \<noteq> level r then c0 + 1 else c0"
  define dn where "dn = d\<lparr>user_xp := ?ys\<rparr>"
  have rin: "r \<in> set (user_xp d)" and rg: "guild_id r = gid" using Cons.prems by auto
  have step: "recalc_others fexp s gid (r # rows) d c0 = recalc_others fexp s gid rows dn ?c"
  proof (cases "lvl = level r")
    case True
    have "dn = d" unfolding dn_def True relevel_same by simp
    then show ?thesis using lvl True by simp
  next
    case False
    have m: "map (\<lambda>q. if is_user gid (user_id r) q then q\<lparr>level := lvl\<rparr> else q) (user_xp d) = ?ys"
      using update_is_relevel(2)[OF Cons.prems(1) rin, of lvl] by (simp only: rg)
    show ?thesis using lvl False by (simp add: dn_def m)
  qed
  have dn_xp: "user_xp dn = ?ys" and dn_gs: "guild_settings dn = guild_settings d"
    by (simp_all add: dn_def)
  have dk': "distinct (map (\<lambda>r. (guild_id r, user_id r)) (user_xp dn))"
    using Cons.prems(1) by (simp only: dn_xp relevel_keys)
  have sub': "set rows \<subseteq> set (user_xp dn)"
    unfolding dn_xp by (rule rest_in_relevel[OF Cons.prems(2) Cons.prems(3)])
  have d': "distinct (map user_id rows)" and g': "\<forall>r \<in> set rows. guild_id r = gid"
    using Cons.prems by auto
  from Cons.IH[OF dk' sub' d' g', of ?c] obtain c d' where
    ih: "recalc_others fexp s gid rows dn ?c = Some (c, d')"
      "guild_settings d' = guild_settings dn"
      "recalc_post ?lev gid (user_xp dn) (user_xp d') rows"
    by blast
  have fresh: "user_id r \<notin> user_id ` set rows" using Cons.prems(3) by auto
  have "recalc_post ?lev gid (user_xp d) (user_xp d') (r # rows)"
    using recalc_post_step[where lev = ?lev and l = lvl, OF Cons.prems(1) rin rg lvl fresh] ih(3)
    by (simp only: dn_xp)
  then show ?case using step ih(1) ih(2) dn_gs by simp
qed

lemma scan_levels:
  assumes "(aw, tried, w', exc) =
           (if lo < hi then award_roles D True uid (reward_rows d gid (lo + 1) hi) w
            else ([], [], w, False))"
  shows "tried \<noteq> [] \<longrightarrow> lo < hi \<and> fst ` set tried \<subseteq> {lo<..hi}"
    and "\<not> lo < hi \<longrightarrow> w' = w \<and> aw = []"
proof -
  show "\<not> lo < hi \<longrightarrow> w' = w \<and> aw = []" using assms by auto
  show "tried \<noteq> [] \<longrightarrow> lo < hi \<and> fst ` set tried \<subseteq> {lo<..hi}"
  proof (cases "lo < hi")
    case False
    then show ?thesis using assms by auto
  next
    case True
    then have "award_roles D True uid (reward_rows d gid (lo + 1) hi) w = (aw, tried, w', exc)"
      using assms by simp
    from award_roles_member[OF this]
    have "map fst tried = map rr_level (reward_rows d gid (lo + 1) hi)" by simp
    then have "set (map fst tried) = set (map rr_level (reward_rows d gid (lo + 1) hi))" by simp
    then have "fst ` set tried = rr_level ` set (reward_rows d gid (lo + 1) hi)" by simp
    moreover have "rr_level ` set (reward_rows d gid (lo + 1) hi) \<subseteq> {lo<..hi}"
    proof
      fix x assume "x \<in> rr_level ` set (reward_rows d gid (lo + 1) hi)"
      then obtain rr where rr: "rr \<in> set (reward_rows d gid (lo + 1) hi)" "x = rr_level rr"
        by auto
      from reward_rows_levels[OF rr(1)] have "lo + 1 \<le> rr_level rr" "rr_level rr \<le> hi" by auto
      then show "x \<in> {lo<..hi}" using rr(2) by simp
    qed
    ultimately show ?thesis using True by simp
  qed
qed

lemma recalc_members_post:
  assumes "guild_settings d gid = Some s"
    and "distinct (map (\<lambda>r. (guild_id r, user_id r)) (user_xp d))"
    and "set rows \<subseteq> set (user_xp d)" "distinct (map user_id rows)"
    and "\<forall>r \<in> set rows. guild_id r = gid \<and> 0 \<le> xp r \<and> user_id r \<in> guild_members D"
  shows "\<exists>c t new w' d'.
       recalc_members fexp D gid rows w d c0 t0 sc0 = Some (c, t, sc0 @ new, w', d')
     \<and> guild_settings d' = guild_settings d
     \<and> recalc_post (level_from_total_xp fexp (curve_type s) (base_xp s) (curve_a s) (curve_b s))
          gid (user_xp d) (user_xp d') rows
     \<and> (\<forall>(u, tried) \<in> set new. \<exists>r \<in> set rows. user_id r = u \<and>
           (tried \<noteq> [] \<longrightarrow>
              (\<exists>l. level_from_total_xp fexp (curve_type s) (base_xp s) (curve_a s) (curve_b s)
                      (xp r) = Some l
                   \<and> level r < l \<and> fst ` set tried \<subseteq> {level r<..l})))
     \<and> ((\<forall>r \<in> set rows. \<exists>l. level_from_total_xp fexp (curve_type s) (base_xp s) (curve_a s)
                                  (curve_b s) (xp r) = Some l \<and> l \<le> level r)
          \<longrightarrow> w' = w \<and> t = t0)"
  using assms
proof (induction rows arbitrary: w d c0 t0 sc0)
  case Nil
  then show ?case by (simp add: recalc_post_Nil)
next
  case (Cons r rows)
  let ?lev = "level_from_total_xp fexp (curve_type s) (base_xp s) (curve_a s) (curve_b s)"
  have rin: "r \<in> set (user_xp d)" and rg: "guild_id r = gid" and rx: "0 \<le> xp r"
    and rm: "user_id r \<in> guild_members D"
    using Cons.prems by auto
  obtain res where res: "add_xp_and_check_level_up fexp D w d gid True (user_id r) 0 = Some res"
    by (rule exE[OF add_xp_returns])
  note Z = add_xp_zero_member[OF Cons.prems(1) Cons.prems(2) rin rg rx res]
  let ?ys = "map (\<lambda>q. if q = r then r\<lparr>level := new_level res\<rparr> else q) (user_xp d)"
  let ?c = "if new_level res \<noteq> level r then c0 + 1 else c0"
  let ?t = "t0 + int (length (awarded res))"
  let ?sc = "sc0 @ [(user_id r, attempts res)]"
  have step: "recalc_members fexp D gid (r # rows) w d c0 t0 sc0
      = recalc_members fexp D gid rows (world res) (store res) ?c ?t ?sc"
    using rm res by simp
  have gs': "guild_settings (store res) gid = Some s" using Z(4) Cons.prems(1) by simp
  have dk': "distinct (map (\<lambda>r. (guild_id r, user_id r)) (user_xp (store res)))"
    using Cons.prems(2) by (simp only: Z(1) relevel_keys)
  have sub': "set rows \<subseteq> set (user_xp (store res))"
    unfolding Z(1) by (rule rest_in_relevel[OF Cons.prems(3) Cons.prems(4)])
  have d': "distinct (map user_id rows)"
    and ok': "\<forall>r \<in> set rows. guild_id r = gid \<and> 0 \<le> xp r \<and> user_id r \<in> guild_members D"
    using Cons.prems by auto
  from Cons.IH[OF gs' dk' sub' d' ok', of "world res" ?c ?t ?sc]
  obtain c t new w' d' where
    ih: "recalc_members fexp D gid rows (world res) (store res) ?c ?t ?sc
           = Some (c, t, ?sc @ new, w', d')"
      "guild_settings d' = guild_settings (store res)"
      "recalc_post ?lev gid (user_xp (store res)) (user_xp d') rows"
      "\<forall>(u, tried) \<in> set new. \<exists>r \<in> set rows. user_id r = u \<and>
           (tried \<noteq> [] \<longrightarrow> (\<exists>l. ?lev (xp r) = Some l \<and> level r < l
                \<and> fst ` set tried \<subseteq> {level r<..l}))"
      "(\<forall>r \<in> set rows. \<exists>l. ?lev (xp r) = Some l \<and> l \<le> level r) \<longrightarrow> w' = world res \<and> t = ?t"
    by (elim exE conjE) (rule that; assumption)
  have fresh: "user_id r \<notin> user_id ` set rows" using Cons.prems(4) by auto
  have post: "recalc_post ?lev gid (user_xp d) (user_xp d') (r # rows)"
    using recalc_post_step[where lev = ?lev and l = "new_level res",
        OF Cons.prems(2) rin rg Z(2) fresh] ih(3)
    by (simp only: Z(1))
  note S = scan_levels[OF Z(5)]
  have here: "attempts res \<noteq> [] \<longrightarrow>
      (\<exists>l. ?lev (xp r) = Some l \<and> level r < l \<and> fst ` set (attempts res) \<subseteq> {level r<..l})"
    using S(1) Z(2) by blast
  have scans: "\<forall>(u, tried) \<in> set ((user_id r, attempts res) # new).
       \<exists>r' \<in> set (r # rows). user_id r' = u \<and>
           (tried \<noteq> [] \<longrightarrow> (\<exists>l. ?lev (xp r') = Some l \<and> level r' < l
                \<and> fst ` set tried \<subseteq> {level r'<..l}))"
  proof (rule ballI)
    fix p assume p: "p \<in> set ((user_id r, attempts res) # new)"
    show "case p of (u, tried) \<Rightarrow> \<exists>r' \<in> set (r # rows). user_id r' = u \<and>
           (tried \<noteq> [] \<longrightarrow> (\<exists>l. ?lev (xp r') = Some l \<and> level r' < l
                \<and> fst ` set tried \<subseteq> {level r'<..l}))"
    proof (cases "p = (user_id r, attempts res)")
      case True
      then show ?thesis using here by simp
    next
      case False
      then have pn: "p \<in> set new" using p by simp
      obtain u tried where pe: "p = (u, tried)" by (cases p)
      from bspec[OF ih(4) pn] obtain r' where r': "r' \<in> set rows" "user_id r' = u"
        "tried \<noteq> [] \<longrightarrow> (\<exists>l. ?lev (xp r') = Some l \<and> level r' < l
                \<and> fst ` set tried \<subseteq> {level r'<..l})"
        unfolding pe by auto
      have "r' \<in> set (r # rows)" using r'(1) by simp
      then show ?thesis unfolding pe using r'(2) r'(3) by (simp only: prod.case) blast
    qed
  qed
  have quiet: "(\<forall>r' \<in> set (r # rows). \<exists>l. ?lev (xp r') = Some l \<and> l \<le> level r')
      \<longrightarrow> w' = w \<and> t = t0"
  proof
    assume q: "\<forall>r' \<in> set (r # rows). \<exists>l. ?lev (xp r') = Some l \<and> l \<le> level r'"
    have "new_level res \<le> level r" using q Z(2) by auto
    then have "world res = w" "awarded res = []" using S(2) by auto
    moreover have "w' = world res \<and> t = ?t" using ih(5) q by simp
    ultimately show "w' = w \<and> t = t0" by simp
  qed
  have f1: "recalc_members fexp D gid (r # rows) w d c0 t0 sc0
      = Some (c, t, sc0 @ ((user_id r, attempts res) # new), w', d')"
    using step ih(1) by simp
  have f2: "guild_settings d' = guild_settings d" using ih(2) Z(4) by simp
  show ?case
  proof (intro exI conjI)
    show "recalc_members fexp D gid (r # rows) w d c0 t0 sc0
      = Some (c, t, sc0 @ ((user_id r, attempts res) # new), w', d')" by (rule f1)
    show "guild_settings d' = guild_settings d" by (rule f2)
    show "recalc_post ?lev gid (user_xp d) (user_xp d') (r # rows)" by (rule post)
    show "\<forall>(u, tried) \<in> set ((user_id r, attempts res) # new).
       \<exists>r' \<in> set (r # rows). user_id r' = u \<and>
           (tried \<noteq> [] \<longrightarrow> (\<exists>l. ?lev (xp r') = Some l \<and> level r' < l
                \<and> fst ` set tried \<subseteq> {level r'<..l}))" by (rule scans)
    show "(\<forall>r' \<in> set (r # rows). \<exists>l. ?lev (xp r') = Some l \<and> l \<le> level r')
      \<longrightarrow> w' = w \<and> t = t0" by (rule quiet)
  qed
qed

lemma get_settings_stored:
  "guild_settings (snd (get_settings d g)) g = Some (fst (get_settings d g))"
  by (simp add: get_settings_def split: option.splits)

text \<open>
  C9. \<open>cfg_recalc\<close> returns, and afterwards: every row has the XP (and key and
  timestamp) it had; the level of every row of the guild is the level of its XP under
  the current curve, whether that is higher or lower than before; rows of other guilds
  are as they were. The reward loop ran only for members of the guild, and it reached a
  reward only for a subject whose new level is strictly above the old one, within
  \<open>(old level, new level]\<close>. Nothing but \<open>add_roles\<close> changes the world, so no role is
  taken away; if no member's level rises, the world is untouched and no role is
  granted. Assumed of the store: the primary key of \<open>user_xp\<close> and XP \<open>\<ge> 0\<close>.
\<close>

theorem recalc_levels:
  fixes d :: db and gid :: int
  defines "s \<equiv> fst (get_settings d gid)"
  assumes dk: "distinct (map (\<lambda>r. (guild_id r, user_id r)) (user_xp d))"
    and nn: "\<forall>r \<in> set (user_xp d). guild_id r = gid \<longrightarrow> 0 \<le> xp r"
  shows "\<exists>res. cfg_recalc fexp D w d gid = Some res
     \<and> map (\<lambda>r. (guild_id r, user_id r, xp r, last_message_ts r)) (user_xp (store_after res))
         = map (\<lambda>r. (guild_id r, user_id r, xp r, last_message_ts r)) (user_xp d)
     \<and> (\<forall>q \<in> set (user_xp (store_after res)).
           if guild_id q = gid
           then level_from_total_xp fexp (curve_type s) (base_xp s) (curve_a s) (curve_b s) (xp q)
                  = Some (level q)
           else q \<in> set (user_xp d))
     \<and> (\<forall>(u, tried) \<in> set (scans res).
           u \<in> guild_members D
           \<and> (\<exists>r \<in> set (user_xp d). guild_id r = gid \<and> user_id r = u
                \<and> (tried \<noteq> [] \<longrightarrow>
                     (\<exists>l. level_from_total_xp fexp (curve_type s) (base_xp s) (curve_a s)
                             (curve_b s) (xp r) = Some l
                          \<and> level r < l \<and> fst ` set tried \<subseteq> {level r<..l}))))
     \<and> ((\<forall>r \<in> set (user_xp d). guild_id r = gid \<and> user_id r \<in> guild_members D \<longrightarrow>
             (\<exists>l. level_from_total_xp fexp (curve_type s) (base_xp s) (curve_a s) (curve_b s)
                     (xp r) = Some l \<and> l \<le> level r))
          \<longrightarrow> world_after res = w \<and> awarded_roles res = 0)"
proof -
  let ?lev = "level_from_total_xp fexp (curve_type s) (base_xp s) (curve_a s) (curve_b s)"
  let ?strip = "\<lambda>r. (guild_id r, user_id r, xp r, last_message_ts r)"
  define d1 where "d1 = snd (get_settings d gid)"
  define mrows where "mrows = filter (\<lambda>r. guild_id r = gid \<and> user_id r \<in> guild_members D) (user_xp d)"
  define orows where "orows = filter (\<lambda>r. guild_id r = gid \<and> user_id r \<notin> guild_members D) (user_xp d)"
  have gs: "get_settings d gid = (s, d1)" by (simp add: s_def d1_def)
  have x1: "user_xp d1 = user_xp d" by (simp add: d1_def)
  have gs1: "guild_settings d1 gid = Some s" unfolding d1_def s_def by (rule get_settings_stored)
  have dk1: "distinct (map (\<lambda>r. (guild_id r, user_id r)) (user_xp d1))" using dk by (simp only: x1)
  have m_sub: "set mrows \<subseteq> set (user_xp d1)" by (auto simp: mrows_def x1)
  have m_dist: "distinct (map user_id mrows)" unfolding mrows_def by (rule distinct_user_ids[OF dk])
  have m_ok: "\<forall>r \<in> set mrows. guild_id r = gid \<and> 0 \<le> xp r \<and> user_id r \<in> guild_members D"
    using nn by (auto simp: mrows_def)
  from recalc_members_post[OF gs1 dk1 m_sub m_dist m_ok, of fexp w 0 0 "[]"]
  obtain c t new w' d2 where
    M: "recalc_members fexp D gid mrows w d1 0 0 [] = Some (c, t, [] @ new, w', d2)"
      "guild_settings d2 = guild_settings d1"
      "recalc_post ?lev gid (user_xp d1) (user_xp d2) mrows"
      "\<forall>(u, tried) \<in> set new. \<exists>r \<in> set mrows. user_id r = u \<and>
           (tried \<noteq> [] \<longrightarrow> (\<exists>l. ?lev (xp r) = Some l \<and> level r < l
                \<and> fst ` set tried \<subseteq> {level r<..l}))"
      "(\<forall>r \<in> set mrows. \<exists>l. ?lev (xp r) = Some l \<and> l \<le> level r) \<longrightarrow> w' = w \<and> t = 0"
    by (elim exE conjE) (rule that; assumption)
  have M1: "map ?strip (user_xp d2) = map ?strip (user_xp d1)"
    and M2: "\<And>q. q \<in> set (user_xp d2) \<Longrightarrow>
           (q \<in> set (user_xp d1) \<and> \<not> (guild_id q = gid \<and> user_id q \<in> user_id ` set mrows))
           \<or> (guild_id q = gid \<and> user_id q \<in> user_id ` set mrows \<and> ?lev (xp q) = Some (level q))"
    and M3: "\<And>q. q \<in> set (user_xp d1) \<Longrightarrow>
           \<not> (guild_id q = gid \<and> user_id q \<in> user_id ` set mrows) \<Longrightarrow> q \<in> set (user_xp d2)"
    using M(3) unfolding recalc_post_def by blast+
  have dk2: "distinct (map (\<lambda>r. (guild_id r, user_id r)) (user_xp d2))"
    using dk1 by (simp only: recalc_post_keys[OF M(3)])
  have o_sub: "set orows \<subseteq> set (user_xp d2)"
  proof
    fix q assume q: "q \<in> set orows"
    then have a: "q \<in> set (user_xp d1)" "user_id q \<notin> guild_members D" by (auto simp: orows_def x1)
    have "user_id q \<notin> user_id ` set mrows" using a(2) by (auto simp: mrows_def)
    then show "q \<in> set (user_xp d2)" using M3[OF a(1)] by simp
  qed
  have o_dist: "distinct (map user_id orows)" unfolding orows_def by (rule distinct_user_ids[OF dk])
  have o_ok: "\<forall>r \<in> set orows. guild_id r = gid" by (auto simp: orows_def)
  from recalc_others_post[OF dk2 o_sub o_dist o_ok, of fexp s c]
  obtain c' d3 where
    O: "recalc_others fexp s gid orows d2 c = Some (c', d3)"
      "guild_settings d3 = guild_settings d2"
      "recalc_post ?lev gid (user_xp d2) (user_xp d3) orows"
    by (elim exE conjE) (rule that; assumption)
  have O1: "map ?strip (user_xp d3) = map ?strip (user_xp d2)"
    and O2: "\<And>q. q \<in> set (user_xp d3) \<Longrightarrow>
           (q \<in> set (user_xp d2) \<and> \<not> (guild_id q = gid \<and> user_id q \<in> user_id ` set orows))
           \<or> (guild_id q = gid \<and> user_id q \<in> user_id ` set orows \<and> ?lev (xp q) = Some (level q))"
    using O(3) unfolding recalc_post_def by blast+
  let ?res = "\<lparr>changed_rows = c', awarded_roles = t, scans = new, world_after = w',
               store_after = d3\<rparr>"
  have filt: "filter (\<lambda>r. user_id r \<in> guild_members D) (filter (\<lambda>r. guild_id r = gid) (user_xp d1)) = mrows"
    "filter (\<lambda>r. user_id r \<notin> guild_members D) (filter (\<lambda>r. guild_id r = gid) (user_xp d1)) = orows"
    by (simp_all add: mrows_def orows_def x1 conj_commute)
  have run: "cfg_recalc fexp D w d gid = Some ?res"
    unfolding cfg_recalc_def gs Let_def prod.case filt using M(1) O(1) by simp
  have c1: "map ?strip (user_xp d3) = map ?strip (user_xp d)"
    using O1 M1 by (simp only: x1)
  have c2: "if guild_id q = gid then ?lev (xp q) = Some (level q) else q \<in> set (user_xp d)"
    if q: "q \<in> set (user_xp d3)" for q
  proof -
    from O2[OF q] show ?thesis
    proof
      assume a: "q \<in> set (user_xp d2) \<and> \<not> (guild_id q = gid \<and> user_id q \<in> user_id ` set orows)"
      from M2[OF conjunct1[OF a]] show ?thesis
      proof
        assume b: "q \<in> set (user_xp d1) \<and> \<not> (guild_id q = gid \<and> user_id q \<in> user_id ` set mrows)"
        have qd: "q \<in> set (user_xp d)" using b by (simp add: x1)
        have "guild_id q \<noteq> gid"
        proof
          assume g: "guild_id q = gid"
          have "q \<in> set mrows \<or> q \<in> set orows" using qd g by (auto simp: mrows_def orows_def)
          then have "user_id q \<in> user_id ` set mrows \<or> user_id q \<in> user_id ` set orows" by auto
          then show False using a b g by blast
        qed
        then show ?thesis using qd by simp
      next
        assume "guild_id q = gid \<and> user_id q \<in> user_id ` set mrows \<and> ?lev (xp q) = Some (level q)"
        then show ?thesis by simp
      qed
    next
      assume "guild_id q = gid \<and> user_id q \<in> user_id ` set orows \<and> ?lev (xp q) = Some (level q)"
      then show ?thesis by simp
    qed
  qed
  have c3: "case p of (u, tried) \<Rightarrow>
           u \<in> guild_members D
           \<and> (\<exists>r \<in> set (user_xp d). guild_id r = gid \<and> user_id r = u
                \<and> (tried \<noteq> [] \<longrightarrow> (\<exists>l. ?lev (xp r) = Some l \<and> level r < l
                       \<and> fst ` set tried \<subseteq> {level r<..l})))"
    if p: "p \<in> set new" for p
  proof -
    obtain u tried where pe: "p = (u, tried)" by (cases p)
    from bspec[OF M(4) p] obtain r where r: "r \<in> set mrows" "user_id r = u"
      "tried \<noteq> [] \<longrightarrow> (\<exists>l. ?lev (xp r) = Some l \<and> level r < l
                \<and> fst ` set tried \<subseteq> {level r<..l})"
      unfolding pe by auto
    have r': "r \<in> set (user_xp d)" "guild_id r = gid" "user_id r \<in> guild_members D"
      using r(1) by (auto simp: mrows_def)
    have "u \<in> guild_members D" using r'(3) r(2) by simp
    moreover have "\<exists>r \<in> set (user_xp d). guild_id r = gid \<and> user_id r = u
                \<and> (tried \<noteq> [] \<longrightarrow> (\<exists>l. ?lev (xp r) = Some l \<and> level r < l
                       \<and> fst ` set tried \<subseteq> {level r<..l}))"
      using r' r(2) r(3) by blast
    ultimately show ?thesis unfolding pe by simp
  qed
  have c4: "(\<forall>r \<in> set (user_xp d). guild_id r = gid \<and> user_id r \<in> guild_members D \<longrightarrow>
             (\<exists>l. ?lev (xp r) = Some l \<and> l \<le> level r))
          \<longrightarrow> w' = w \<and> t = 0"
  proof
    assume h: "\<forall>r \<in> set (user_xp d). guild_id r = gid \<and> user_id r \<in> guild_members D \<longrightarrow>
             (\<exists>l. ?lev (xp r) = Some l \<and> l \<le> level r)"
    have "\<forall>r \<in> set mrows. \<exists>l. ?lev (xp r) = Some l \<and> l \<le> level r"
      using h by (simp add: mrows_def)
    then show "w' = w \<and> t = 0" using M(5) by simp
  qed
  show ?thesis
  proof (intro exI conjI)
    show "cfg_recalc fexp D w d gid = Some ?res" by (rule run)
    show "map ?strip (user_xp (store_after ?res)) = map ?strip (user_xp d)" using c1 by simp
    show "\<forall>q \<in> set (user_xp (store_after ?res)).
           if guild_id q = gid then ?lev (xp q) = Some (level q) else q \<in> set (user_xp d)"
      using c2 by simp
    show "\<forall>(u, tried) \<in> set (scans ?res).
           u \<in> guild_members D
           \<and> (\<exists>r \<in> set (user_xp d). guild_id r = gid \<and> user_id r = u
                \<and> (tried \<noteq> [] \<longrightarrow> (\<exists>l. ?lev (xp r) = Some l \<and> level r < l
                       \<and> fst ` set tried \<subseteq> {level r<..l})))"
      using c3 by simp
    show "(\<forall>r \<in> set (user_xp d). guild_id r = gid \<and> user_id r \<in> guild_members D \<longrightarrow>
             (\<exists>l. ?lev (xp r) = Some l \<and> l \<le> level r))
          \<longrightarrow> world_after ?res = w \<and> awarded_roles ?res = 0"
      using c4 by simp
  qed
qed

lemma recalc_example_levels:
  "level_from_total_xp fexp ''quadratic'' 100 50 0 3900 = Some 6"
  by (simp add: level_from_total_xp_def ramp.simps xp_required_for_level_def
        lower_quadratic Let_def)

lemma recalc_example_run:
  "cfg_recalc ideal_fexp example_guild {} recalc_store 1
     = Some \<lparr>changed_rows = 3, awarded_roles = 2,
             scans = [(7, [(4, Granted), (5, Forbidden), (6, Granted)]), (8, [])],
             world_after = {66, 44},
             store_after = example_store
               [\<lparr>guild_id = 1, user_id = 7, xp = 3900, level = 6, last_message_ts = 50\<rparr>,
                \<lparr>guild_id = 2, user_id = 7, xp = 5, level = 9, last_message_ts = 0\<rparr>,
                \<lparr>guild_id = 1, user_id = 9, xp = 160, level = 1, last_message_ts = 0\<rparr>,
                \<lparr>guild_id = 1, user_id = 8, xp = 10, level = 0, last_message_ts = 70\<rparr>]\<rparr>"
proof -
  let ?r7 = "\<lparr>guild_id = 1, user_id = 7, xp = 3900, level = 3, last_message_ts = 50\<rparr>"
  let ?r7' = "\<lparr>guild_id = 1, user_id = 7, xp = 3900, level = 6, last_message_ts = 50\<rparr>"
  let ?q = "\<lparr>guild_id = 2, user_id = 7, xp = 5, level = 9, last_message_ts = 0\<rparr>"
  let ?r9 = "\<lparr>guild_id = 1, user_id = 9, xp = 160, level = 0, last_message_ts = 0\<rparr>"
  let ?r9' = "\<lparr>guild_id = 1, user_id = 9, xp = 160, level = 1, last_message_ts = 0\<rparr>"
  let ?r8 = "\<lparr>guild_id = 1, user_id = 8, xp = 10, level = 2, last_message_ts = 70\<rparr>"
  let ?r8' = "\<lparr>guild_id = 1, user_id = 8, xp = 10, level = 0, last_message_ts = 70\<rparr>"
  have mem: "guild_members example_guild = {7, 8}" by (simp add: example_guild_def)
  have a1: "add_xp_and_check_level_up ideal_fexp example_guild {}
              (example_store [?r7, ?q, ?r9, ?r8]) 1 True 7 0
      = Some \<lparr>new_total = 3900, new_level = 6, awarded = [(4, 44), (6, 66)],
              attempts = [(4, Granted), (5, Forbidden), (6, Granted)], old_level = 3,
              raised = False, world = {66, 44}, store = example_store [?r7', ?q, ?r9, ?r8]\<rparr>"
    by (simp add: add_xp_and_check_level_up_def recalc_example_levels Let_def is_user_def
          reward_rows_def example_guild_def)
  have a2: "add_xp_and_check_level_up ideal_fexp example_guild {66, 44}
              (example_store [?r7', ?q, ?r9, ?r8]) 1 True 8 0
      = Some \<lparr>new_total = 10, new_level = 0, awarded = [], attempts = [], old_level = 2,
              raised = False, world = {66, 44}, store = example_store [?r7', ?q, ?r9, ?r8']\<rparr>"
    by (simp add: add_xp_and_check_level_up_def example_levels Let_def is_user_def)
  have m: "recalc_members ideal_fexp example_guild 1 [?r7, ?r8] {} recalc_store 0 0 []
      = Some (2, 2, [(7, [(4, Granted), (5, Forbidden), (6, Granted)]), (8, [])], {66, 44},
              example_store [?r7', ?q, ?r9, ?r8'])"
    by (simp add: recalc_store_def mem a1 a2)
  have g: "get_settings recalc_store 1 = (DEFAULT_SETTINGS, recalc_store)"
    by (simp add: recalc_store_def)
  have mf: "filter (\<lambda>r. user_id r \<in> guild_members example_guild)
              (filter (\<lambda>r. guild_id r = 1) (user_xp recalc_store)) = [?r7, ?r8]"
    and otf: "filter (\<lambda>r. user_id r \<notin> guild_members example_guild)
              (filter (\<lambda>r. guild_id r = 1) (user_xp recalc_store)) = [?r9]"
    by (simp_all add: recalc_store_def mem)
  have o: "recalc_others ideal_fexp DEFAULT_SETTINGS 1 [?r9] (example_store [?r7', ?q, ?r9, ?r8']) 2
      = Some (3, example_store [?r7', ?q, ?r9', ?r8'])"
    by (simp add: example_levels is_user_def)
  show ?thesis
    by (simp only: cfg_recalc_def g Let_def prod.case mf otf m o option.case)
qed

theorem recalc_levels_witness:
  "\<exists>res. cfg_recalc ideal_fexp example_guild {} recalc_store 1 = Some res
     \<and> map (\<lambda>r. (user_id r, xp r, level r)) (filter (\<lambda>r. guild_id r = 1) (user_xp (store_after res)))
         = [(7, 3900, 6), (9, 160, 1), (8, 10, 0)]
     \<and> scans res = [(7, [(4, Granted), (5, Forbidden), (6, Granted)]), (8, [])]
     \<and> map (\<lambda>r. (guild_id r, user_id r, xp r, last_message_ts r)) (user_xp (store_after res))
         = map (\<lambda>r. (guild_id r, user_id r, xp r, last_message_ts r)) (user_xp recalc_store)
     \<and> (\<forall>q \<in> set (user_xp (store_after res)).
           if guild_id q = 1
           then level_from_total_xp ideal_fexp ''quadratic'' 100 50 0 (xp q) = Some (level q)
           else q \<in> set (user_xp recalc_store))"
proof -
  have dk: "distinct (map (\<lambda>r. (guild_id r, user_id r)) (user_xp recalc_store))"
    by (simp add: recalc_store_def)
  have nn: "\<forall>r \<in> set (user_xp recalc_store). guild_id r = 1 \<longrightarrow> 0 \<le> xp r"
    by (simp add: recalc_store_def)
  have s: "fst (get_settings recalc_store 1) = DEFAULT_SETTINGS" by (simp add: recalc_store_def)
  from recalc_levels[OF dk nn, of ideal_fexp example_guild "{}"]
  obtain res where r: "cfg_recalc ideal_fexp example_guild {} recalc_store 1 = Some res"
    "map (\<lambda>r. (guild_id r, user_id r, xp r, last_message_ts r)) (user_xp (store_after res))
         = map (\<lambda>r. (guild_id r, user_id r, xp r, last_message_ts r)) (user_xp recalc_store)"
    "\<forall>q \<in> set (user_xp (store_after res)).
           if guild_id q = 1
           then level_from_total_xp ideal_fexp ''quadratic'' 100 50 0 (xp q) = Some (level q)
           else q \<in> set (user_xp recalc_store)"
    unfolding s default_fields by (elim exE conjE) (rule that; assumption)
  have e: "res = \<lparr>changed_rows = 3, awarded_roles = 2,
             scans = [(7, [(4, Granted), (5, Forbidden), (6, Granted)]), (8, [])],
             world_after = {66, 44},
             store_after = example_store
               [\<lparr>guild_id = 1, user_id = 7, xp = 3900, level = 6, last_message_ts = 50\<rparr>,
                \<lparr>guild_id = 2, user_id = 7, xp = 5, level = 9, last_message_ts = 0\<rparr>,
                \<lparr>guild_id = 1, user_id = 9, xp = 160, level = 1, last_message_ts = 0\<rparr>,
                \<lparr>guild_id = 1, user_id = 8, xp = 10, level = 0, last_message_ts = 70\<rparr>]\<rparr>"
    using r(1) by (simp add: recalc_example_run)
  have v: "map (\<lambda>r. (user_id r, xp r, level r)) (filter (\<lambda>r. guild_id r = 1) (user_xp (store_after res)))
         = [(7, 3900, 6), (9, 160, 1), (8, 10, 0)]"
    "scans res = [(7, [(4, Granted), (5, Forbidden), (6, Granted)]), (8, [])]"
    by (simp_all add: e)
  show ?thesis
  proof (intro exI conjI)
    show "cfg_recalc ideal_fexp example_guild {} recalc_store 1 = Some res" by (rule r(1))
  qed (rule v r)+
qed

section \<open>Curve parameters outside the theorems\<close>

text \<open>
  Outside the parameters of the theorems on monotone thresholds and on the round trip
  both properties can fail; \<open>cfg_setcurve\<close> accepts every integer \<open>a\<close> and \<open>b\<close>
  and every \<open>base_xp\<close> from 1 to 1000000. Two more such settings: quadratic
  thresholds that decrease, and a linear curve that is 0 everywhere (the search then
  stops at its cap).
\<close>

lemma quadratic_thresholds_can_decrease:
  "xp_required_for_level fexp ''quadratic'' 1 (- 10) 20 1 = 11
   \<and> xp_required_for_level fexp ''quadratic'' 1 (- 10) 20 2 = 4"
  by (simp add: xp_required_quadratic)

lemma flat_linear_curve_reports_cap:
  "xp_required_for_level fexp ''linear'' 1 (- 1) 0 0 = 0
   \<and> level_from_total_xp fexp ''linear'' 1 (- 1) 0 0 = Some 16384"
proof -
  have z: "xp_required_for_level fexp ''linear'' 1 (- 1) 0 lv = 0" for lv
    by (simp add: xp_required_for_level_def lower_linear Let_def)
  have r: "ramp fexp ''linear'' 1 (- 1) 0 0 1 = Some 16384"
    by (simp add: ramp.simps z)
  have b: "bsearch fexp ''linear'' 1 (- 1) 0 0 lo 16384 = 16384" if "lo \<le> 16384" for lo
    using that
  proof (induction "nat (16384 - lo)" arbitrary: lo rule: less_induct)
    case less
    show ?case
    proof (cases "lo < 16384")
      case False
      then show ?thesis using less.prems by (subst bsearch.simps) simp
    next
      case True
      let ?mid = "(lo + 16384 + 1) div 2"
      have m: "lo < ?mid" "?mid \<le> 16384" using True by auto
      then have "nat (16384 - ?mid) < nat (16384 - lo)" by simp
      from less.hyps[OF this m(2)] show ?thesis using True
        by (subst bsearch.simps) (simp add: z Let_def)
    qed
  qed
  show ?thesis using z r b[of 0] by (simp add: level_from_total_xp_def)
qed


end
